theory Spec2Isabelle
  imports Main "HOL-Library.Multiset"
begin

section \<open>Values and exceptions of the Python program\<close>

text \<open>
  The program is \<^verbatim>\<open>seller.py\<close>. A Python \<^verbatim>\<open>str\<close> is modelled as a \<open>string\<close> holding
  its UTF-8 bytes: the program only compares strings for equality, splits at the ASCII
  full stop and deletes what is not an ASCII digit, and all of these act the same on code
  points and on their UTF-8 encoding (every byte of a non-ASCII code point is at least
  \<open>0x80\<close>).

  A cell of the supplier's spreadsheet, as \<^verbatim>\<open>pandas.read_excel(...).to_dict\<close> delivers it,
  is \<^verbatim>\<open>None\<close>, an \<^verbatim>\<open>int\<close> or a \<^verbatim>\<open>str\<close>; a missing key of the row is \<^verbatim>\<open>None\<close> too, since
  the program reads rows with \<^verbatim>\<open>dict.get\<close>. Floating-point cells are not modelled. An
  \<^verbatim>\<open>int\<close> cell is a whole number of the spreadsheet, of at most 309 digits, so that \<^verbatim>\<open>str\<close>
  of it is never refused for its length.
\<close>

datatype pyval = VNone | VInt int | VStr string

datatype error =
    ReadTimeout
  | ConnectionError
  | ValueError
  | TypeError
  | AttributeError
  | IndexError
  | OtherException

type_synonym watch = "string \<rightharpoonup> pyval"

definition key_code :: string where
  "key_code = [CHR 0xD0, CHR 0x9A, CHR 0xD0, CHR 0xBE, CHR 0xD0, CHR 0xB4]"

definition key_count :: string where
  "key_count = [CHR 0xD0, CHR 0x9A, CHR 0xD0, CHR 0xBE, CHR 0xD0, CHR 0xBB, CHR 0xD0, CHR 0xB8,
                CHR 0xD1, CHR 0x87, CHR 0xD0, CHR 0xB5, CHR 0xD1, CHR 0x81, CHR 0xD1, CHR 0x82,
                CHR 0xD0, CHR 0xB2, CHR 0xD0, CHR 0xBE]"

definition key_price :: string where
  "key_price = [CHR 0xD0, CHR 0xA6, CHR 0xD0, CHR 0xB5, CHR 0xD0, CHR 0xBD, CHR 0xD0, CHR 0xB0]"

text \<open>\<^verbatim>\<open>watch.get(key)\<close>: the value stored under the key, \<^verbatim>\<open>None\<close> when there is none.\<close>

definition get :: "watch \<Rightarrow> string \<Rightarrow> pyval" where
  "get w k = (case w k of None \<Rightarrow> VNone | Some v \<Rightarrow> v)"

section \<open>\<^verbatim>\<open>price_conversion\<close>\<close>

definition is_digit :: "char \<Rightarrow> bool" where
  "is_digit c = (c \<in> set ''0123456789'')"

text \<open>\<^verbatim>\<open>s.split(sep)\<close> for a one-character separator: the pieces between the separators.\<close>

fun split :: "char \<Rightarrow> string \<Rightarrow> string list" where
  "split sep [] = [[]]"
| "split sep (c # cs) =
     (if c = sep then [] # split sep cs
      else (case split sep cs of [] \<Rightarrow> [[c]] | p # ps \<Rightarrow> (c # p) # ps))"

text \<open>\<^verbatim>\<open>re.sub("[^0-9]", "", s)\<close>: every character outside \<^verbatim>\<open>0\<close>..\<^verbatim>\<open>9\<close> is deleted.\<close>

definition re_sub_non_digits :: "string \<Rightarrow> string" where
  "re_sub_non_digits s = filter is_digit s"

text \<open>
  \<^verbatim>\<open>return re.sub("[^0-9]", "", price.split(".")[0])\<close>. A value that is no \<^verbatim>\<open>str\<close> has no
  \<^verbatim>\<open>split\<close> (AttributeError); indexing an empty list would be an IndexError.
\<close>

definition price_conversion :: "pyval \<Rightarrow> error + string" where
  "price_conversion price =
     (case price of
        VStr s \<Rightarrow>
          (case split (CHR ''.'') s of
             [] \<Rightarrow> Inl IndexError
           | p # _ \<Rightarrow> Inr (re_sub_non_digits p))
      | _ \<Rightarrow> Inl AttributeError)"

section \<open>\<^verbatim>\<open>divide\<close>\<close>

text \<open>
  \<^verbatim>\<open>range(i, stop, step)\<close> from a start \<open>i \<le> stop\<close>, as \<^verbatim>\<open>divide\<close> calls it (start \<open>0\<close>,
  stop \<^verbatim>\<open>len(lst)\<close>): a negative step gives the empty range, the step \<open>0\<close> is rejected
  by \<^verbatim>\<open>divide\<close> below.
\<close>

function range_step :: "nat \<Rightarrow> nat \<Rightarrow> int \<Rightarrow> nat list" where
  "range_step i stop step =
     (if 0 < step \<and> i < stop then i # range_step (i + nat step) stop step else [])"
  by pat_completeness auto
termination
  by (relation "measure (\<lambda>(i, stop, step). stop - i)") auto

declare range_step.simps [simp del]

text \<open>\<^verbatim>\<open>lst[i : j]\<close> for \<open>0 \<le> i \<le> j\<close>; Python cuts the slice at the end of the list.\<close>

definition slice :: "'a list \<Rightarrow> nat \<Rightarrow> nat \<Rightarrow> 'a list" where
  "slice lst i j = take (j - i) (drop i lst)"

text \<open>
  \<^verbatim>\<open>for i in range(0, len(lst), n): yield lst[i : i + n]\<close>, with the generator run to its
  end as \<^verbatim>\<open>list(divide(...))\<close> does. \<^verbatim>\<open>range\<close> raises ValueError on the step \<open>0\<close>.
\<close>

definition divide :: "'a list \<Rightarrow> int \<Rightarrow> error + 'a list list" where
  "divide lst n =
     (if n = 0 then Inl ValueError
      else Inr (map (\<lambda>i. slice lst i (i + nat n)) (range_step 0 (length lst) n)))"

text \<open>The chunks that the loop of \<^verbatim>\<open>divide\<close> yields from the index \<open>i\<close> on.\<close>

definition chunks_from :: "'a list \<Rightarrow> int \<Rightarrow> nat \<Rightarrow> 'a list list" where
  "chunks_from lst n i = map (\<lambda>j. slice lst j (j + nat n)) (range_step i (length lst) n)"

section \<open>Coercions \<^verbatim>\<open>str\<close> and \<^verbatim>\<open>int\<close>\<close>

definition digit_char :: "nat \<Rightarrow> char" where
  "digit_char d = char_of (48 + d)"

fun str_nat :: "nat \<Rightarrow> string" where
  "str_nat n = (if n < 10 then [digit_char n] else str_nat (n div 10) @ [digit_char (n mod 10)])"

declare str_nat.simps [simp del]

definition str_int :: "int \<Rightarrow> string" where
  "str_int i = (if i < 0 then CHR ''-'' # str_nat (nat (- i)) else str_nat (nat i))"

text \<open>\<^verbatim>\<open>str(v)\<close>.\<close>

fun py_str :: "pyval \<Rightarrow> string" where
  "py_str VNone = ''None''"
| "py_str (VInt i) = str_int i"
| "py_str (VStr s) = s"

text \<open>
  \<^verbatim>\<open>int(s)\<close> for a string, in base ten, as CPython computes it. The text is first
  brought to ASCII: a text that is ASCII already is taken as it is; otherwise every code
  point below 127 is kept, a space of another script becomes a blank, a decimal digit of
  another script becomes the ASCII digit of its value, and any other code point makes the
  literal invalid. The ASCII text is then read: white space around the literal is
  skipped, one sign may lead, and the digits may be grouped by single underscores between
  them. A literal of more than 4300 digits is refused (the interpreter's limit on the
  conversion of strings to integers, at its default). Every failure is a ValueError.
\<close>

text \<open>The white space of ASCII that the reader skips: tab, line feed, vertical tab, form
  feed, carriage return, blank.\<close>

definition is_space :: "char \<Rightarrow> bool" where
  "is_space c = (c \<in> set [CHR 0x09, CHR 0x0A, CHR 0x0B, CHR 0x0C, CHR 0x0D, CHR 0x20])"

definition strip :: "string \<Rightarrow> string" where
  "strip s = rev (dropWhile is_space (rev (dropWhile is_space s)))"

definition digit_val :: "char \<Rightarrow> nat" where
  "digit_val c = of_char c - 48"

text \<open>
  The digits of the literal, read left to right; the flag says that the character before
  was a digit, which an underscore and the end of the literal both need.
\<close>

fun digits :: "bool \<Rightarrow> nat \<Rightarrow> string \<Rightarrow> nat option" where
  "digits d acc [] = (if d then Some acc else None)"
| "digits d acc (c # cs) =
     (if is_digit c then digits True (10 * acc + digit_val c) cs
      else if c = CHR ''_'' \<and> d then digits False acc cs
      else None)"

definition max_str_digits :: nat where
  "max_str_digits = 4300"

definition int_of_ascii :: "string \<Rightarrow> error + int" where
  "int_of_ascii t =
     (case strip t of
        [] \<Rightarrow> Inl ValueError
      | c # cs \<Rightarrow>
          (let body = (if c = CHR ''-'' \<or> c = CHR ''+'' then cs else c # cs) in
           case digits False 0 body of
             None \<Rightarrow> Inl ValueError
           | Some n \<Rightarrow>
               if max_str_digits < length (filter is_digit body) then Inl ValueError
               else Inr (if c = CHR ''-'' then - int n else int n)))"

text \<open>
  The code points of a text from its UTF-8 bytes. The state is the number of continuation
  bytes still to come, the least code point that a sequence of this length may encode,
  and the bits read so far. Bytes that are no UTF-8 encode no text and give \<open>None\<close>.
\<close>

fun utf8_decode :: "nat \<Rightarrow> nat \<Rightarrow> nat \<Rightarrow> string \<Rightarrow> nat list option" where
  "utf8_decode k lo acc [] = (if k = 0 then Some [] else None)"
| "utf8_decode 0 lo acc (c # cs) =
     (if (of_char c :: nat) < 0x80 then map_option ((#) (of_char c)) (utf8_decode 0 0 0 cs)
      else if 0xC0 \<le> (of_char c :: nat) \<and> (of_char c :: nat) < 0xE0
        then utf8_decode (Suc 0) 0x80 (of_char c - 0xC0) cs
      else if 0xE0 \<le> (of_char c :: nat) \<and> (of_char c :: nat) < 0xF0
        then utf8_decode (Suc (Suc 0)) 0x800 (of_char c - 0xE0) cs
      else if 0xF0 \<le> (of_char c :: nat) \<and> (of_char c :: nat) < 0xF8
        then utf8_decode (Suc (Suc (Suc 0))) 0x10000 (of_char c - 0xF0) cs
      else None)"
| "utf8_decode (Suc k) lo acc (c # cs) =
     (if 0x80 \<le> (of_char c :: nat) \<and> (of_char c :: nat) < 0xC0 then
        (if k = 0 then
           (if lo \<le> acc * 64 + (of_char c - 0x80) \<and> acc * 64 + (of_char c - 0x80) < 0x110000
            then map_option ((#) (acc * 64 + (of_char c - 0x80))) (utf8_decode 0 0 0 cs)
            else None)
         else utf8_decode k lo (acc * 64 + (of_char c - 0x80)) cs)
      else None)"

text \<open>
  The spaces beyond ASCII, and the code points of the digit zero of every script with
  decimal digits; the nine code points after a zero are the digits one to nine. The
  tables are those of Unicode 14.0, which CPython 3.11 carries.
\<close>

definition unicode_space :: "nat \<Rightarrow> bool" where
  "unicode_space cp =
     (cp \<in> set [0x85, 0xA0, 0x1680, 0x2000, 0x2001, 0x2002, 0x2003, 0x2004, 0x2005, 0x2006,
                0x2007, 0x2008, 0x2009, 0x200A, 0x2028, 0x2029, 0x202F, 0x205F, 0x3000])"

definition decimal_zeros :: "nat list" where
  "decimal_zeros =
      [0x660, 0x6F0, 0x7C0, 0x966, 0x9E6, 0xA66, 0xAE6, 0xB66, 0xBE6, 0xC66, 0xCE6,
       0xD66, 0xDE6, 0xE50, 0xED0, 0xF20, 0x1040, 0x1090, 0x17E0, 0x1810, 0x1946,
       0x19D0, 0x1A80, 0x1A90, 0x1B50, 0x1BB0, 0x1C40, 0x1C50, 0xA620, 0xA8D0,
       0xA900, 0xA9D0, 0xA9F0, 0xAA50, 0xABF0, 0xFF10, 0x104A0, 0x10D30, 0x11066,
       0x110F0, 0x11136, 0x111D0, 0x112F0, 0x11450, 0x114D0, 0x11650, 0x116C0,
       0x11730, 0x118E0, 0x11950, 0x11C50, 0x11D50, 0x11DA0, 0x16A60, 0x16AC0,
       0x16B50, 0x1D7CE, 0x1D7D8, 0x1D7E2, 0x1D7EC, 0x1D7F6, 0x1E140, 0x1E2F0,
       0x1E950, 0x1FBF0]"

definition unicode_decimal :: "nat \<Rightarrow> nat option" where
  "unicode_decimal cp =
     (case find (\<lambda>z. z \<le> cp \<and> cp < z + 10) decimal_zeros of
        None \<Rightarrow> None
      | Some z \<Rightarrow> Some (cp - z))"

fun to_ascii :: "nat list \<Rightarrow> string option" where
  "to_ascii [] = Some []"
| "to_ascii (cp # cps) =
     (if cp < 127 then map_option ((#) (char_of cp)) (to_ascii cps)
      else if unicode_space cp then map_option ((#) CHR '' '') (to_ascii cps)
      else (case unicode_decimal cp of
              None \<Rightarrow> None
            | Some d \<Rightarrow> map_option ((#) (digit_char d)) (to_ascii cps)))"

definition is_ascii :: "string \<Rightarrow> bool" where
  "is_ascii s = list_all (\<lambda>c. (of_char c :: nat) < 0x80) s"

definition ascii_form :: "string \<Rightarrow> string option" where
  "ascii_form s =
     (if is_ascii s then Some s
      else (case utf8_decode 0 0 0 s of None \<Rightarrow> None | Some cps \<Rightarrow> to_ascii cps))"

definition int_of_str :: "string \<Rightarrow> error + int" where
  "int_of_str s = (case ascii_form s of None \<Rightarrow> Inl ValueError | Some t \<Rightarrow> int_of_ascii t)"

text \<open>\<^verbatim>\<open>int(v)\<close>: an \<^verbatim>\<open>int\<close> is returned as it is, \<^verbatim>\<open>None\<close> is a TypeError.\<close>

fun py_int :: "pyval \<Rightarrow> error + int" where
  "py_int VNone = Inl TypeError"
| "py_int (VInt i) = Inr i"
| "py_int (VStr s) = int_of_str s"

section \<open>\<^verbatim>\<open>create_stocks\<close> and \<^verbatim>\<open>create_prices\<close>\<close>

record offer =
  offer_id :: string

record stock_update = offer +
  stock :: int

record price_update = offer +
  auto_action_enabled :: string
  currency_code :: string
  old_price :: string
  price :: string

text \<open>
  The stock of one row (lines 153 to 159 of \<^verbatim>\<open>create_stocks\<close>), from the cell
  \<^verbatim>\<open>watch.get("Kolichestvo")\<close> (the key is in Cyrillic in the source):
  \<^verbatim>\<open>
  count = str(watch.get(...))
  if count == ">10": stock = 100
  elif count == "1": stock = 0
  else: stock = int(watch.get(...))
  \<close>
\<close>

definition stock_of :: "pyval \<Rightarrow> error + int" where
  "stock_of q =
     (let count = py_str q in
      if count = ''>10'' then Inr 100
      else if count = ''1'' then Inr 0
      else py_int q)"

text \<open>\<^verbatim>\<open>lst.remove(x)\<close>: the first occurrence goes; ValueError when there is none.\<close>

definition remove :: "'a \<Rightarrow> 'a list \<Rightarrow> error + 'a list" where
  "remove x lst = (if x \<in> set lst then Inr (remove1 x lst) else Inl ValueError)"

text \<open>
  The first loop of \<^verbatim>\<open>create_stocks\<close>. The list \<^verbatim>\<open>offer_ids\<close> is the caller's object and is
  changed in place, so the loop returns it together with its outcome: the list is as the
  loop left it also when an exception ends the loop.
\<close>

fun create_stocks_loop ::
  "watch list \<Rightarrow> stock_update list \<Rightarrow> string list \<Rightarrow> (error + stock_update list) \<times> string list"
where
  "create_stocks_loop [] stocks offer_ids = (Inr stocks, offer_ids)"
| "create_stocks_loop (watch # rest) stocks offer_ids =
     (if py_str (get watch key_code) \<in> set offer_ids then
        (case stock_of (get watch key_count) of
           Inl e \<Rightarrow> (Inl e, offer_ids)
         | Inr n \<Rightarrow>
             (case remove (py_str (get watch key_code)) offer_ids of
                Inl e \<Rightarrow> (Inl e, offer_ids)
              | Inr offer_ids' \<Rightarrow>
                  create_stocks_loop rest
                    (stocks @ [\<lparr>offer_id = py_str (get watch key_code), stock = n\<rparr>])
                    offer_ids'))
      else create_stocks_loop rest stocks offer_ids)"

text \<open>
  \<^verbatim>\<open>create_stocks\<close>: the loop over the rows, then a zero stock for every id left in the
  list. The second component is the caller's list after the call.
\<close>

definition create_stocks ::
  "watch list \<Rightarrow> string list \<Rightarrow> (error + stock_update list) \<times> string list"
where
  "create_stocks watch_remnants offer_ids =
     (case create_stocks_loop watch_remnants [] offer_ids of
        (Inl e, offer_ids') \<Rightarrow> (Inl e, offer_ids')
      | (Inr stocks, offer_ids') \<Rightarrow>
          (Inr (stocks @ map (\<lambda>i. \<lparr>offer_id = i, stock = 0\<rparr>) offer_ids'), offer_ids'))"

text \<open>\<^verbatim>\<open>create_prices\<close> reads \<^verbatim>\<open>offer_ids\<close> and never changes it.\<close>

fun create_prices_loop ::
  "watch list \<Rightarrow> price_update list \<Rightarrow> string list \<Rightarrow> error + price_update list"
where
  "create_prices_loop [] prices offer_ids = Inr prices"
| "create_prices_loop (watch # rest) prices offer_ids =
     (if py_str (get watch key_code) \<in> set offer_ids then
        (case price_conversion (get watch key_price) of
           Inl e \<Rightarrow> Inl e
         | Inr p \<Rightarrow>
             create_prices_loop rest
               (prices @ [\<lparr>offer_id = py_str (get watch key_code),
                           auto_action_enabled = ''UNKNOWN'',
                           currency_code = ''RUB'',
                           old_price = ''0'',
                           price = p\<rparr>])
               offer_ids)
      else create_prices_loop rest prices offer_ids)"

definition create_prices :: "watch list \<Rightarrow> string list \<Rightarrow> error + price_update list" where
  "create_prices watch_remnants offer_ids = create_prices_loop watch_remnants [] offer_ids"

section \<open>The list \<^verbatim>\<open>offer_ids\<close> as an object\<close>

text \<open>
  A Python list is passed by reference. Where it matters which list object a call gets,
  the list objects live in a store, from addresses to lists, and a call names the address
  of its argument: \<^verbatim>\<open>create_stocks\<close> leaves the list it was given changed in the store,
  \<^verbatim>\<open>create_prices\<close> leaves the store as it was.
\<close>

type_synonym heap = "nat \<Rightarrow> string list"

definition call_create_stocks ::
  "watch list \<Rightarrow> nat \<Rightarrow> heap \<Rightarrow> (error + stock_update list) \<times> heap" where
  "call_create_stocks watch_remnants a h =
     (case create_stocks watch_remnants (h a) of (r, offer_ids') \<Rightarrow> (r, h(a := offer_ids')))"

definition call_create_prices ::
  "watch list \<Rightarrow> nat \<Rightarrow> heap \<Rightarrow> (error + price_update list) \<times> heap" where
  "call_create_prices watch_remnants a h = (create_prices watch_remnants (h a), h)"

section \<open>\<^verbatim>\<open>main\<close>\<close>

text \<open>
  What \<^verbatim>\<open>main\<close> does to the outside is a list of events: the calls of \<^verbatim>\<open>update_stocks\<close>
  and \<^verbatim>\<open>update_price\<close> with their batches, and the line an \<^verbatim>\<open>except\<close> clause prints.
  \<^verbatim>\<open>print(error, "ERROR_2")\<close> prints the exception's own text and then the literal; the
  event keeps the two apart, as the exception that was printed and the literal.
\<close>

datatype event =
    Update_stocks "stock_update list"
  | Update_price "price_update list"
  | Print "error option" string

text \<open>
  The outside world of one run: what \<^verbatim>\<open>get_offer_ids\<close> and \<^verbatim>\<open>download_stock\<close> return or
  raise, and for the \<open>k\<close>-th call of \<^verbatim>\<open>update_stocks\<close> and of \<^verbatim>\<open>update_price\<close> the exception
  it raises, if any (\<^verbatim>\<open>raise_for_status\<close>, a timeout, a lost connection).
\<close>

record world =
  get_offer_ids :: "error + string list"
  download_stock :: "error + watch list"
  update_stocks :: "nat \<Rightarrow> error option"
  update_price :: "nat \<Rightarrow> error option"

text \<open>
  \<^verbatim>\<open>for batch in list(divide(...)): update(batch, ...)\<close>: the calls made, and the exception
  that ended the loop, if one did.
\<close>

fun upload ::
  "('b \<Rightarrow> event) \<Rightarrow> (nat \<Rightarrow> error option) \<Rightarrow> nat \<Rightarrow> 'b list \<Rightarrow> event list \<times> error option"
where
  "upload call outcome k [] = ([], None)"
| "upload call outcome k (b # bs) =
     (case outcome k of
        Some e \<Rightarrow> ([call b], Some e)
      | None \<Rightarrow> (case upload call outcome (Suc k) bs of (tr, r) \<Rightarrow> (call b # tr, r)))"

text \<open>
  The body of the \<^verbatim>\<open>try\<close> (lines 274 to 283). \<^verbatim>\<open>create_prices\<close> gets the list
  \<^verbatim>\<open>offer_ids\<close> as \<^verbatim>\<open>create_stocks\<close> left it: both calls name the same object.
\<close>

definition main_try :: "world \<Rightarrow> event list \<times> error option" where
  "main_try w =
     (case get_offer_ids w of
        Inl e \<Rightarrow> ([], Some e)
      | Inr offer_ids \<Rightarrow>
     (case download_stock w of
        Inl e \<Rightarrow> ([], Some e)
      | Inr watch_remnants \<Rightarrow>
     (case create_stocks watch_remnants offer_ids of
        (Inl e, offer_ids') \<Rightarrow> ([], Some e)
      | (Inr stocks, offer_ids') \<Rightarrow>
     (case divide stocks 100 of
        Inl e \<Rightarrow> ([], Some e)
      | Inr stock_batches \<Rightarrow>
     (case upload Update_stocks (update_stocks w) 0 stock_batches of
        (tr, Some e) \<Rightarrow> (tr, Some e)
      | (tr, None) \<Rightarrow>
     (case create_prices watch_remnants offer_ids' of
        Inl e \<Rightarrow> (tr, Some e)
      | Inr prices \<Rightarrow>
     (case divide prices 900 of
        Inl e \<Rightarrow> (tr, Some e)
      | Inr price_batches \<Rightarrow>
     (case upload Update_price (update_price w) 0 price_batches of
        (tr', r) \<Rightarrow> (tr @ tr', r)))))))))"

definition timeout_message :: string where
  "timeout_message =
     [CHR 0xD0, CHR 0x9F, CHR 0xD1, CHR 0x80, CHR 0xD0, CHR 0xB5, CHR 0xD0, CHR 0xB2, CHR 0xD1,
      CHR 0x8B, CHR 0xD1, CHR 0x88, CHR 0xD0, CHR 0xB5, CHR 0xD0, CHR 0xBD, CHR 0xD0, CHR 0xBE,
      CHR 0x20, CHR 0xD0, CHR 0xB2, CHR 0xD1, CHR 0x80, CHR 0xD0, CHR 0xB5, CHR 0xD0, CHR 0xBC,
      CHR 0xD1, CHR 0x8F, CHR 0x20, CHR 0xD0, CHR 0xBE, CHR 0xD0, CHR 0xB6, CHR 0xD0, CHR 0xB8,
      CHR 0xD0, CHR 0xB4, CHR 0xD0, CHR 0xB0, CHR 0xD0, CHR 0xBD, CHR 0xD0, CHR 0xB8, CHR 0xD1,
      CHR 0x8F, CHR 0x2E, CHR 0x2E, CHR 0x2E]"

definition connection_message :: string where
  "connection_message =
     [CHR 0xD0, CHR 0x9E, CHR 0xD1, CHR 0x88, CHR 0xD0, CHR 0xB8, CHR 0xD0, CHR 0xB1, CHR 0xD0,
      CHR 0xBA, CHR 0xD0, CHR 0xB0, CHR 0x20, CHR 0xD1, CHR 0x81, CHR 0xD0, CHR 0xBE, CHR 0xD0,
      CHR 0xB5, CHR 0xD0, CHR 0xB4, CHR 0xD0, CHR 0xB8, CHR 0xD0, CHR 0xBD, CHR 0xD0, CHR 0xB5,
      CHR 0xD0, CHR 0xBD, CHR 0xD0, CHR 0xB8, CHR 0xD1, CHR 0x8F]"

text \<open>
  The three \<^verbatim>\<open>except\<close> clauses (lines 284 to 289), tried in this order:
  \<^verbatim>\<open>ReadTimeout\<close>, \<^verbatim>\<open>ConnectionError\<close>, \<^verbatim>\<open>Exception\<close>.
\<close>

definition handler :: "error \<Rightarrow> event" where
  "handler e =
     (if e = ReadTimeout then Print None timeout_message
      else if e = ConnectionError then Print (Some e) connection_message
      else Print (Some e) ''ERROR_2'')"

text \<open>
  \<^verbatim>\<open>main\<close>: the \<^verbatim>\<open>try\<close> and its handlers. The two credentials are read from the
  environment before the \<^verbatim>\<open>try\<close> and play no part in what follows.
\<close>

definition main :: "world \<Rightarrow> event list" where
  "main w = (case main_try w of (tr, None) \<Rightarrow> tr | (tr, Some e) \<Rightarrow> tr @ [handler e])"

section \<open>The failure categories of the specification\<close>

text \<open>
  The specification sorts failures into three categories, which the program does not
  name: a timeout or a connection failure is a transient network failure; a malformed
  price or quantity string is a validation failure (the exceptions that \<^verbatim>\<open>int\<close> and
  \<^verbatim>\<open>price_conversion\<close> raise); anything else is an unexpected failure. The diagnostic of an
  event is the literal that a handler prints.
\<close>

datatype category = TransientNetwork | ValidationFailure | UnexpectedFailure

definition spec_category :: "error \<Rightarrow> category" where
  "spec_category e =
     (if e = ReadTimeout \<or> e = ConnectionError then TransientNetwork
      else if e = ValueError \<or> e = TypeError \<or> e = AttributeError then ValidationFailure
      else UnexpectedFailure)"

fun diagnostic :: "event \<Rightarrow> string" where
  "diagnostic (Print x s) = s"
| "diagnostic (Update_stocks b) = []"
| "diagnostic (Update_price b) = []"

section \<open>Notions used in the statements\<close>

text \<open>
  The value of a string of digits read in base ten, and the printable ASCII characters
  that no integer literal contains.
\<close>

definition face_value :: "string \<Rightarrow> nat" where
  "face_value s = foldl (\<lambda>a c. 10 * a + digit_val c) 0 s"

definition non_numeric :: "char \<Rightarrow> bool" where
  "non_numeric c = (0x21 \<le> (of_char c :: nat) \<and> (of_char c :: nat) \<le> 0x7E
                    \<and> \<not> is_digit c \<and> c \<notin> set ''+-_'')"

text \<open>
  The integer literals of Python in base ten, over ASCII: white space, an optional sign,
  groups of digits with one underscore between two groups, white space; not more than
  4300 digits in all. The value is that of the digits, negated after a minus sign.
\<close>

definition int_literal :: "string \<Rightarrow> int \<Rightarrow> bool" where
  "int_literal t v \<longleftrightarrow>
     (\<exists>l sg body r. t = l @ sg @ body @ r
        \<and> list_all is_space l \<and> list_all is_space r
        \<and> (\<forall>g \<in> set (split CHR ''_'' body). g \<noteq> [] \<and> list_all is_digit g)
        \<and> length (filter is_digit body) \<le> 4300
        \<and> (sg = [] \<and> v = int (face_value (filter is_digit body))
           \<or> sg = ''+'' \<and> v = int (face_value (filter is_digit body))
           \<or> sg = ''-'' \<and> v = - int (face_value (filter is_digit body))))"

text \<open>The code of a row as \<^verbatim>\<open>create_stocks\<close> and \<^verbatim>\<open>create_prices\<close> look it up, and the
  update that \<^verbatim>\<open>create_stocks\<close> appends for an id that is left in the list.\<close>

definition code_of :: "watch \<Rightarrow> string" where
  "code_of watch = py_str (get watch key_code)"

definition zero_stock :: "string \<Rightarrow> stock_update" where
  "zero_stock i = \<lparr>offer_id = i, stock = 0\<rparr>"

section \<open>Properties of \<^verbatim>\<open>price_conversion\<close>\<close>

lemma split_not_Nil: "split sep s \<noteq> []"
  by (induction s) (auto split: list.splits)

lemma hd_split: "hd (split sep s) = takeWhile (\<lambda>c. c \<noteq> sep) s"
  by (induction s) (auto split: list.splits simp: split_not_Nil)

lemma split_first:
  "split sep s = p # ps \<Longrightarrow> p = takeWhile (\<lambda>c. c \<noteq> sep) s"
  using hd_split [of sep s] by simp

lemma price_conversion_str:
  "price_conversion (VStr p) =
     Inr (filter is_digit (takeWhile (\<lambda>c. c \<noteq> CHR ''.'') p))"
  unfolding price_conversion_def re_sub_non_digits_def
  by (auto split: list.splits simp: split_not_Nil dest: split_first)

text \<open>
  Claim C6. For every string \<open>p\<close>, \<^verbatim>\<open>price_conversion(p)\<close> returns the ASCII digits of \<open>p\<close>
  that stand before the first full stop of \<open>p\<close> (all digits of \<open>p\<close> when it has no full
  stop), so the result holds digits only; and the price \<^verbatim>\<open>5'990.00\<close> followed by a space
  and the Cyrillic abbreviation of the rouble (given here by its UTF-8 bytes) becomes
  \<^verbatim>\<open>5990\<close>.
\<close>

theorem price_conversion_digits_before_first_dot:
  "price_conversion (VStr p) = Inr (filter is_digit (takeWhile (\<lambda>c. c \<noteq> CHR ''.'') p))
   \<and> (\<exists>r. price_conversion (VStr p) = Inr r \<and> set r \<subseteq> {c. is_digit c})
   \<and> price_conversion
         (VStr (''5'' @ [CHR 0x27] @ ''990.00 '' @
                [CHR 0xD1, CHR 0x80, CHR 0xD1, CHR 0x83, CHR 0xD0, CHR 0xB1])) = Inr ''5990''"
proof -
  have ex: "price_conversion
         (VStr (''5'' @ [CHR 0x27] @ ''990.00 '' @
                [CHR 0xD1, CHR 0x80, CHR 0xD1, CHR 0x83, CHR 0xD0, CHR 0xB1])) = Inr ''5990''"
    by (simp add: price_conversion_def re_sub_non_digits_def is_digit_def)
  have "set (filter is_digit (takeWhile (\<lambda>c. c \<noteq> CHR ''.'') p)) \<subseteq> {c. is_digit c}"
    by auto
  then show ?thesis using ex price_conversion_str [of p] by simp
qed

section \<open>Properties of \<^verbatim>\<open>divide\<close>\<close>

lemma chunks_from_step:
  "0 < n \<Longrightarrow> i < length lst \<Longrightarrow>
   chunks_from lst n i = slice lst i (i + nat n) # chunks_from lst n (i + nat n)"
  unfolding chunks_from_def by (subst range_step.simps) simp

lemma chunks_from_end: "\<not> (0 < n \<and> i < length lst) \<Longrightarrow> chunks_from lst n i = []"
  unfolding chunks_from_def by (subst range_step.simps) simp

lemma chunks_from_Nil_iff: "chunks_from lst n i = [] \<longleftrightarrow> \<not> (0 < n \<and> i < length lst)"
  using chunks_from_step [of n i lst] chunks_from_end [of n i lst] by auto

lemma chunks_from_induct [consumes 1, case_names stop step]:
  assumes "0 < n"
    and "\<And>i. length lst \<le> i \<Longrightarrow> P i"
    and "\<And>i. i < length lst \<Longrightarrow> P (i + nat n) \<Longrightarrow> P i"
  shows "P i"
proof (induction "length lst - i" arbitrary: i rule: less_induct)
  case less
  show ?case
  proof (cases "i < length lst")
    case True
    have "length lst - (i + nat n) < length lst - i" using True assms(1) by linarith
    then show ?thesis using less True assms(3) by blast
  next
    case False
    then show ?thesis using assms(2) by simp
  qed
qed

lemma concat_chunks_from:
  assumes "0 < n" shows "concat (chunks_from lst n i) = drop i lst"
  using assms
proof (induction i rule: chunks_from_induct [where lst = lst])
  case (stop i)
  then show ?case by (simp add: chunks_from_end)
next
  case (step i)
  have cs: "chunks_from lst n i = slice lst i (i + nat n) # chunks_from lst n (i + nat n)"
    using step(1) assms by (rule chunks_from_step [rotated])
  have "take (nat n) (drop i lst) @ drop (nat n) (drop i lst) = drop i lst"
    by (rule append_take_drop_id)
  then have "take (nat n) (drop i lst) @ drop (i + nat n) lst = drop i lst"
    by (simp add: add.commute)
  then show ?case using step(2) assms by (simp only: cs concat.simps slice_def add_diff_cancel_left')
qed

lemma butlast_chunks_from:
  assumes "0 < n" shows "\<forall>c \<in> set (butlast (chunks_from lst n i)). length c = nat n"
  using assms
proof (induction i rule: chunks_from_induct [where lst = lst])
  case (stop i)
  then show ?case by (simp add: chunks_from_end)
next
  case (step i)
  define rest where "rest = chunks_from lst n (i + nat n)"
  have cs: "chunks_from lst n i = slice lst i (i + nat n) # rest"
    unfolding rest_def using step(1) assms by (rule chunks_from_step [rotated])
  have ih: "\<forall>c \<in> set (butlast rest). length c = nat n"
    unfolding rest_def using step(2) assms by blast
  show ?case
  proof (cases "i + nat n < length lst")
    case True
    then have "length (slice lst i (i + nat n)) = nat n" by (simp add: slice_def)
    then show ?thesis using ih by (simp add: cs)
  next
    case False
    then have "rest = []" unfolding rest_def by (simp add: chunks_from_end)
    then show ?thesis by (simp add: cs)
  qed
qed

lemma last_chunks_from:
  assumes "0 < n" and "i < length lst"
  shows "0 < length (last (chunks_from lst n i)) \<and> length (last (chunks_from lst n i)) \<le> nat n
       \<and> length (last (chunks_from lst n i)) + nat n * (length (chunks_from lst n i) - 1)
           = length lst - i"
  using assms
proof (induction i rule: chunks_from_induct [where lst = lst])
  case (stop i)
  then show ?case by simp
next
  case (step i)
  define rest where "rest = chunks_from lst n (i + nat n)"
  have cs: "chunks_from lst n i = slice lst i (i + nat n) # rest"
    unfolding rest_def using step(1) assms(1) by (rule chunks_from_step [rotated])
  show ?case
  proof (cases "i + nat n < length lst")
    case True
    then have ne: "rest \<noteq> []"
      unfolding rest_def using assms(1) by (simp add: chunks_from_Nil_iff)
    have ih: "0 < length (last rest) \<and> length (last rest) \<le> nat n \<and>
       length (last rest) + nat n * (length rest - 1) = length lst - (i + nat n)"
      unfolding rest_def using step(2) True assms(1) by blast
    obtain k where k: "length rest = Suc k" using ne by (cases rest) auto
    have l: "last (chunks_from lst n i) = last rest" using cs ne by simp
    have m: "length (chunks_from lst n i) - 1 = Suc k" using cs k by simp
    have "length (last rest) + nat n * Suc k = length lst - i"
      using ih k True by (simp del: mult_Suc_right add: mult_Suc_right [of "nat n" k]) linarith
    then show ?thesis using ih l m by simp
  next
    case False
    then have "rest = []" unfolding rest_def by (simp add: chunks_from_end)
    then show ?thesis using cs step(1) False assms(1) by (simp add: slice_def)
  qed
qed

text \<open>
  Claim C8. For every list \<open>s\<close> and every positive \<open>n\<close>, \<^verbatim>\<open>divide(s, n)\<close> returns chunks
  whose concatenation, in order, is \<open>s\<close>; every chunk but the last has length \<open>n\<close>; the
  last chunk is not empty, has at most \<open>n\<close> elements and holds what the full chunks
  before it leave of \<open>s\<close>.
\<close>

theorem divide_concat_chunks:
  assumes "0 < n"
  shows "\<exists>chunks. divide s n = Inr chunks \<and> concat chunks = s
     \<and> (\<forall>c \<in> set (butlast chunks). length c = nat n)
     \<and> (chunks \<noteq> [] \<longrightarrow> 0 < length (last chunks) \<and> length (last chunks) \<le> nat n
          \<and> length (last chunks) + nat n * (length chunks - 1) = length s)"
proof -
  have d: "divide s n = Inr (chunks_from s n 0)"
    using assms by (simp add: divide_def chunks_from_def)
  have c: "concat (chunks_from s n 0) = s" using concat_chunks_from [OF assms, of s 0] by simp
  have l: "chunks_from s n 0 \<noteq> [] \<longrightarrow> 0 < length (last (chunks_from s n 0))
      \<and> length (last (chunks_from s n 0)) \<le> nat n
      \<and> length (last (chunks_from s n 0)) + nat n * (length (chunks_from s n 0) - 1) = length s"
    using last_chunks_from [OF assms, of 0 s] by (auto simp: chunks_from_Nil_iff)
  show ?thesis using d c l butlast_chunks_from [OF assms, of s 0] by blast
qed

theorem divide_concat_chunks_witness:
  "(0::int) < 3 \<and> (\<exists>chunks. divide [1, 2, 3, 4, 5, 6, 7 :: nat] 3 = Inr chunks
     \<and> chunks = [[1, 2, 3], [4, 5, 6], [7]]
     \<and> concat chunks = [1, 2, 3, 4, 5, 6, 7]
     \<and> (\<forall>c \<in> set (butlast chunks). length c = nat 3)
     \<and> length (last chunks) + nat 3 * (length chunks - 1) = 7)"
proof -
  have e: "divide [1, 2, 3, 4, 5, 6, 7 :: nat] 3 = Inr [[1, 2, 3], [4, 5, 6], [7]]"
    by (simp add: divide_def range_step.simps slice_def)
  obtain chunks where c: "divide [1, 2, 3, 4, 5, 6, 7 :: nat] 3 = Inr chunks"
      "concat chunks = [1, 2, 3, 4, 5, 6, 7]"
      "\<forall>c \<in> set (butlast chunks). length c = nat 3"
      "chunks \<noteq> [] \<longrightarrow> 0 < length (last chunks) \<and> length (last chunks) \<le> nat 3
          \<and> length (last chunks) + nat 3 * (length chunks - 1) = length [1, 2, 3, 4, 5, 6, 7 :: nat]"
    using divide_concat_chunks [of 3 "[1, 2, 3, 4, 5, 6, 7 :: nat]"] by auto
  have eq: "chunks = [[1, 2, 3], [4, 5, 6], [7]]" using c(1) e by simp
  have "length (last chunks) + nat 3 * (length chunks - 1) = 7" using c(4) eq by simp
  then show ?thesis using c(1,2,3) eq by simp
qed

section \<open>Properties of \<^verbatim>\<open>int\<close> and of the stock of a row\<close>

lemma underscore_no_digit: "\<not> is_digit CHR ''_''"
  by (simp add: is_digit_def)

lemma digits_groups:
  "digits d acc body =
     (if (d \<or> hd (split CHR ''_'' body) \<noteq> [])
         \<and> (\<forall>g \<in> set (split CHR ''_'' body). list_all is_digit g)
         \<and> (\<forall>g \<in> set (tl (split CHR ''_'' body)). g \<noteq> [])
      then Some (foldl (\<lambda>a c. 10 * a + digit_val c) acc (filter is_digit body))
      else None)"
proof (induction body arbitrary: d acc)
  case Nil
  then show ?case by simp
next
  case (Cons c cs)
  obtain p ps where sp: "split CHR ''_'' cs = p # ps"
    using split_not_Nil [of "CHR ''_''" cs] by (cases "split CHR ''_'' cs") auto
  show ?case
  proof (cases "is_digit c")
    case True
    then have ne: "c \<noteq> CHR ''_''" using underscore_no_digit by auto
    show ?thesis using True ne sp Cons.IH [of True "10 * acc + digit_val c"] by auto
  next
    case False
    show ?thesis
    proof (cases "c = CHR ''_'' \<and> d")
      case True
      then show ?thesis using False sp Cons.IH [of False acc] by auto
    next
      case no: False
      show ?thesis
      proof (cases "c = CHR ''_''")
        case True
        then show ?thesis using no False sp by simp
      next
        case ne: False
        then show ?thesis using no False sp by simp
      qed
    qed
  qed
qed

lemma digits_False_iff:
  "digits False 0 body = Some n \<longleftrightarrow>
     (\<forall>g \<in> set (split CHR ''_'' body). g \<noteq> [] \<and> list_all is_digit g)
     \<and> n = face_value (filter is_digit body)"
proof -
  obtain p ps where sp: "split CHR ''_'' body = p # ps"
    using split_not_Nil [of "CHR ''_''" body] by (cases "split CHR ''_'' body") auto
  show ?thesis unfolding digits_groups [of False 0 body] face_value_def sp by auto
qed

lemma digits_Some_ends:
  "digits d acc body = Some n \<Longrightarrow> body \<noteq> [] \<Longrightarrow> is_digit (last body)"
proof (induction body arbitrary: d acc)
  case Nil
  then show ?case by simp
next
  case (Cons c cs)
  show ?case
  proof (cases "cs = []")
    case True
    then show ?thesis using Cons.prems by (auto split: if_splits)
  next
    case False
    then show ?thesis using Cons by (auto split: if_splits)
  qed
qed

lemma digits_False_starts:
  "digits False acc body = Some n \<Longrightarrow> body \<noteq> [] \<and> is_digit (hd body)"
  by (cases body) (auto split: if_splits)

lemma dropWhile_none: "\<forall>x \<in> set xs. \<not> P x \<Longrightarrow> dropWhile P xs = xs"
  by (cases xs) auto

lemma strip_decomp:
  "s = takeWhile is_space s @ strip s @ rev (takeWhile is_space (rev (dropWhile is_space s)))"
proof -
  have "dropWhile is_space s =
      rev (dropWhile is_space (rev (dropWhile is_space s)))
      @ rev (takeWhile is_space (rev (dropWhile is_space s)))"
    by (metis rev_append rev_rev_ident takeWhile_dropWhile_id)
  then show ?thesis unfolding strip_def by (metis takeWhile_dropWhile_id)
qed

lemma strip_unique:
  assumes "list_all is_space l" and "list_all is_space r"
    and "core \<noteq> []" and "\<not> is_space (hd core)" and "\<not> is_space (last core)"
  shows "strip (l @ core @ r) = core"
proof -
  have a: "dropWhile is_space (l @ core @ r) = core @ r"
    using assms(1,3,4) by (cases core) (auto simp: list_all_iff dropWhile_append)
  have "rev (core @ r) = rev r @ rev core" by simp
  moreover have "dropWhile is_space (rev r @ rev core) = rev core"
    using assms(2,3,5) by (cases "rev core") (auto simp: list_all_iff dropWhile_append last_rev hd_rev)
  ultimately show ?thesis unfolding strip_def a by simp
qed


lemma int_of_ascii_Inl: "int_of_ascii t = Inl e \<Longrightarrow> e = ValueError"
  by (auto simp: int_of_ascii_def Let_def split: list.splits option.splits if_splits)

lemma is_digit_plain:
  "is_digit c \<Longrightarrow> \<not> is_space c \<and> c \<noteq> CHR ''-'' \<and> c \<noteq> CHR ''+'' \<and> c \<noteq> CHR ''_''"
  by (auto simp: is_digit_def is_space_def)

lemma sign_no_space: "\<not> is_space CHR ''-''" "\<not> is_space CHR ''+''"
  by (simp_all add: is_space_def)

lemma int_of_ascii_sound:
  assumes "int_of_ascii t = Inr v"
  shows "int_literal t v"
proof -
  obtain c cs where st: "strip t = c # cs"
    using assms by (cases "strip t") (auto simp: int_of_ascii_def)
  define body where "body = (if c = CHR ''-'' \<or> c = CHR ''+'' then cs else c # cs)"
  define sg where "sg = (if c = CHR ''-'' \<or> c = CHR ''+'' then [c] else [])"
  obtain n where n: "digits False 0 body = Some n"
      "\<not> max_str_digits < length (filter is_digit body)"
      "v = (if c = CHR ''-'' then - int n else int n)"
    using assms st unfolding int_of_ascii_def body_def
    by (auto simp: Let_def split: option.splits if_splits)
  have g: "\<forall>g \<in> set (split CHR ''_'' body). g \<noteq> [] \<and> list_all is_digit g"
    and fv: "n = face_value (filter is_digit body)"
    using n(1) digits_False_iff by blast+
  have core: "strip t = sg @ body" using st by (simp add: sg_def body_def)
  define l where "l = takeWhile is_space t"
  define r where "r = rev (takeWhile is_space (rev (dropWhile is_space t)))"
  have t: "t = l @ sg @ body @ r"
    using strip_decomp [of t] core by (simp add: l_def r_def)
  have sp: "list_all is_space l" "list_all is_space r"
    by (auto simp: l_def r_def list_all_iff dest: set_takeWhileD)
  have cap: "length (filter is_digit body) \<le> 4300"
    using n(2) by (simp add: max_str_digits_def)
  have v: "sg = [] \<and> v = int (face_value (filter is_digit body))
           \<or> sg = ''+'' \<and> v = int (face_value (filter is_digit body))
           \<or> sg = ''-'' \<and> v = - int (face_value (filter is_digit body))"
    using n(3) fv by (auto simp: sg_def)
  show ?thesis unfolding int_literal_def using t sp g cap v by blast
qed

lemma int_of_ascii_complete:
  assumes "int_literal t v"
  shows "int_of_ascii t = Inr v"
proof -
  obtain l sg body r where d: "t = l @ sg @ body @ r"
      "list_all is_space l" "list_all is_space r"
      "\<forall>g \<in> set (split CHR ''_'' body). g \<noteq> [] \<and> list_all is_digit g"
      "length (filter is_digit body) \<le> 4300"
      "sg = [] \<and> v = int (face_value (filter is_digit body))
           \<or> sg = ''+'' \<and> v = int (face_value (filter is_digit body))
           \<or> sg = ''-'' \<and> v = - int (face_value (filter is_digit body))"
    using assms unfolding int_literal_def by blast
  have dg: "digits False 0 body = Some (face_value (filter is_digit body))"
    using d(4) digits_False_iff by blast
  have b: "body \<noteq> []" "is_digit (hd body)" "is_digit (last body)"
    using digits_False_starts [OF dg] digits_Some_ends [OF dg] by auto
  obtain b0 bs where body: "body = b0 # bs" using b(1) by (cases body) auto
  have b0: "is_digit b0" using b(2) body by simp
  have core: "sg @ body \<noteq> []" "\<not> is_space (hd (sg @ body))" "\<not> is_space (last (sg @ body))"
    using d(6) b is_digit_plain sign_no_space by (auto simp: body)
  have "t = l @ (sg @ body) @ r" using d(1) by simp
  then have st: "strip t = sg @ body"
    using strip_unique [OF d(2) d(3) core] by simp
  have cap: "\<not> max_str_digits < length (filter is_digit body)"
    using d(5) by (simp add: max_str_digits_def)
  from d(6) show ?thesis
  proof (elim disjE conjE)
    assume "sg = []" and v: "v = int (face_value (filter is_digit body))"
    then have "strip t = b0 # bs" using st body by simp
    moreover have "b0 \<noteq> CHR ''-''" "b0 \<noteq> CHR ''+''" using b0 is_digit_plain by auto
    ultimately show ?thesis using dg cap v body by (simp add: int_of_ascii_def)
  next
    assume "sg = ''+''" and v: "v = int (face_value (filter is_digit body))"
    then have "strip t = CHR ''+'' # body" using st by simp
    then show ?thesis using dg cap v by (simp add: int_of_ascii_def)
  next
    assume "sg = ''-''" and v: "v = - int (face_value (filter is_digit body))"
    then have "strip t = CHR ''-'' # body" using st by simp
    then show ?thesis using dg cap v by (simp add: int_of_ascii_def)
  qed
qed

lemma int_of_ascii_literal: "int_of_ascii t = Inr v \<longleftrightarrow> int_literal t v"
  using int_of_ascii_sound int_of_ascii_complete by blast

lemma int_of_ascii_error: "int_of_ascii t = Inl ValueError \<longleftrightarrow> \<not> (\<exists>v. int_literal t v)"
proof (cases "int_of_ascii t")
  case (Inl e)
  then show ?thesis using int_of_ascii_Inl [OF Inl] int_of_ascii_literal [of t] by auto
next
  case (Inr v)
  then show ?thesis using int_of_ascii_literal [of t v] by auto
qed

lemma int_of_str_literal:
  "int_of_str s = Inr v \<longleftrightarrow> (\<exists>t. ascii_form s = Some t \<and> int_literal t v)"
  by (cases "ascii_form s") (simp_all add: int_of_str_def int_of_ascii_literal)

lemma int_of_str_error:
  "int_of_str s = Inl ValueError \<longleftrightarrow> \<not> (\<exists>t v. ascii_form s = Some t \<and> int_literal t v)"
  by (cases "ascii_form s") (simp_all add: int_of_str_def int_of_ascii_error)

lemma int_of_str_Inl: "int_of_str s = Inl e \<Longrightarrow> e = ValueError"
  by (cases "ascii_form s") (auto simp: int_of_str_def dest: int_of_ascii_Inl)


lemma of_char_eq_iff: "(of_char c :: nat) = of_char d \<longleftrightarrow> c = d"
  by (metis char_of_char)

lemma utf8_decode_ascii_mem:
  "utf8_decode k lo acc s = Some cps \<Longrightarrow> c \<in> set s \<Longrightarrow> (of_char c :: nat) < 0x80 \<Longrightarrow>
   of_char c \<in> set cps"
proof (induction s arbitrary: k lo acc cps)
  case Nil
  then show ?case by simp
next
  case (Cons b bs)
  show ?case
  proof (cases k)
    case 0
    then show ?thesis using Cons
      by (auto split: if_splits)
  next
    case (Suc j)
    then show ?thesis using Cons
      by (auto split: if_splits)
  qed
qed

lemma utf8_decode_low:
  "utf8_decode k lo acc s = Some cps \<Longrightarrow> (0 < k \<longrightarrow> 0x80 \<le> lo) \<Longrightarrow> cp \<in> set cps \<Longrightarrow>
   cp < 0x80 \<Longrightarrow> char_of cp \<in> set s"
proof (induction s arbitrary: k lo acc cps)
  case Nil
  then show ?case by (auto split: if_splits)
next
  case (Cons b bs)
  show ?case
  proof (cases k)
    case 0
    show ?thesis
    proof (cases "(of_char b :: nat) < 0x80")
      case True
      then obtain rest where r: "utf8_decode 0 0 0 bs = Some rest" "cps = of_char b # rest"
        using Cons.prems(1) 0 by auto
      show ?thesis
      proof (cases "cp = of_char b")
        case True
        then show ?thesis by simp
      next
        case False
        then have "cp \<in> set rest" using Cons.prems(3) r(2) by simp
        then show ?thesis using Cons.IH [OF r(1)] Cons.prems(4) by simp
      qed
    next
      case False
      then show ?thesis using Cons.prems 0 Cons.IH
        by (auto split: if_splits)
    qed
  next
    case (Suc j)
    show ?thesis
    proof (cases j)
      case 0
      then obtain rest where r: "utf8_decode 0 0 0 bs = Some rest"
          "cps = (acc * 64 + (of_char b - 0x80)) # rest" "lo \<le> acc * 64 + (of_char b - 0x80)"
        using Cons.prems(1) Suc by (auto split: if_splits)
      have "0x80 \<le> lo" using Cons.prems(2) Suc by simp
      then have "cp \<noteq> acc * 64 + (of_char b - 0x80)" using r(3) Cons.prems(4) by simp
      then have "cp \<in> set rest" using Cons.prems(3) r(2) by simp
      then show ?thesis using Cons.IH [OF r(1)] Cons.prems(4) by simp
    next
      case (Suc i)
      then have "utf8_decode j lo (acc * 64 + (of_char b - 0x80)) bs = Some cps"
        using Cons.prems(1) \<open>k = Suc j\<close> by (auto split: if_splits)
      then show ?thesis using Cons.IH Cons.prems(2,3,4) \<open>k = Suc j\<close> by auto
    qed
  qed
qed

lemma unicode_decimal_less: "unicode_decimal cp = Some d \<Longrightarrow> d < 10"
  by (auto simp: unicode_decimal_def find_Some_iff split: option.splits)

lemma digit_char_is_digit: "d < 10 \<Longrightarrow> is_digit (digit_char d)"
proof -
  assume "d < 10"
  then have "d \<in> {0, 1, 2, 3, 4, 5, 6, 7, 8, 9}" by auto
  then show ?thesis
    by (auto simp: digit_char_def is_digit_def char_of_eq_iff)
qed

lemma to_ascii_low_mem:
  "to_ascii cps = Some t \<Longrightarrow> cp \<in> set cps \<Longrightarrow> cp < 127 \<Longrightarrow> char_of cp \<in> set t"
  by (induction cps arbitrary: t) (auto split: if_splits option.splits)

lemma to_ascii_from:
  "to_ascii cps = Some t \<Longrightarrow> c \<in> set t \<Longrightarrow> \<not> is_digit c \<Longrightarrow> c \<noteq> CHR '' '' \<Longrightarrow>
   \<exists>cp \<in> set cps. cp < 127 \<and> c = char_of cp"
proof (induction cps arbitrary: t)
  case Nil
  then show ?case by simp
next
  case (Cons a cps)
  show ?case
  proof (cases "a < 127")
    case True
    then obtain t' where t': "to_ascii cps = Some t'" "t = char_of a # t'"
      using Cons.prems(1) by auto
    show ?thesis
    proof (cases "c = char_of a")
      case True
      then show ?thesis using \<open>a < 127\<close> by auto
    next
      case False
      then have "c \<in> set t'" using Cons.prems(2) t'(2) by simp
      then show ?thesis using Cons.IH [OF t'(1)] Cons.prems(3,4) by auto
    qed
  next
    case False
    show ?thesis
    proof (cases "unicode_space a")
      case True
      then obtain t' where t': "to_ascii cps = Some t'" "t = CHR '' '' # t'"
        using Cons.prems(1) False by auto
      then have "c \<in> set t'" using Cons.prems(2,4) by simp
      then show ?thesis using Cons.IH [OF t'(1)] Cons.prems(3,4) by auto
    next
      case ns: False
      then obtain d t' where t': "unicode_decimal a = Some d" "to_ascii cps = Some t'"
          "t = digit_char d # t'"
        using Cons.prems(1) False by (auto split: option.splits)
      have "is_digit (digit_char d)" using unicode_decimal_less [OF t'(1)] by (rule digit_char_is_digit)
      then have "c \<in> set t'" using Cons.prems(2,3) t'(3) by auto
      then show ?thesis using Cons.IH [OF t'(2)] Cons.prems(3,4) by auto
    qed
  qed
qed

lemma ascii_form_minus:
  assumes "ascii_form s = Some t" and "CHR ''-'' \<in> set t"
  shows "CHR ''-'' \<in> set s"
proof (cases "is_ascii s")
  case True
  then show ?thesis using assms by (simp add: ascii_form_def)
next
  case False
  then obtain cps where c: "utf8_decode 0 0 0 s = Some cps" "to_ascii cps = Some t"
    using assms(1) by (auto simp: ascii_form_def split: option.splits)
  have "\<not> is_digit CHR ''-''" by (simp add: is_digit_def)
  then obtain cp where cp: "cp \<in> set cps" "cp < 127" "CHR ''-'' = char_of cp"
    using to_ascii_from [OF c(2) assms(2)] by auto
  have "char_of cp \<in> set s" using utf8_decode_low [OF c(1) _ cp(1)] cp(2) by simp
  then show ?thesis using cp(3) by simp
qed

lemma ascii_form_keeps:
  assumes "ascii_form s = Some t" and "c \<in> set s" and "(of_char c :: nat) < 127"
  shows "c \<in> set t"
proof (cases "is_ascii s")
  case True
  then show ?thesis using assms by (simp add: ascii_form_def)
next
  case False
  then obtain cps where d: "utf8_decode 0 0 0 s = Some cps" "to_ascii cps = Some t"
    using assms(1) by (auto simp: ascii_form_def split: option.splits)
  have "of_char c \<in> set cps" using utf8_decode_ascii_mem [OF d(1) assms(2)] assms(3) by simp
  then have "char_of (of_char c :: nat) \<in> set t" using to_ascii_low_mem [OF d(2)] assms(3) by blast
  then show ?thesis by simp
qed


lemma digits_other_char:
  "c \<in> set cs \<Longrightarrow> \<not> is_digit c \<Longrightarrow> c \<noteq> CHR ''_'' \<Longrightarrow> digits d acc cs = None"
  by (induction cs arbitrary: d acc) auto

lemma in_dropWhile: "x \<in> set xs \<Longrightarrow> \<not> P x \<Longrightarrow> x \<in> set (dropWhile P xs)"
  by (induction xs) auto

lemma in_strip: "c \<in> set s \<Longrightarrow> \<not> is_space c \<Longrightarrow> c \<in> set (strip s)"
  by (simp add: strip_def in_dropWhile)

lemma set_strip: "set (strip s) \<subseteq> set s"
  by (auto simp: strip_def dest!: set_dropWhileD)

lemma strip_no_space: "\<forall>c \<in> set s. \<not> is_space c \<Longrightarrow> strip s = s"
  by (simp add: strip_def dropWhile_none)

lemma non_numeric_plain:
  "non_numeric c \<Longrightarrow>
   \<not> is_space c \<and> \<not> is_digit c \<and> c \<noteq> CHR ''-'' \<and> c \<noteq> CHR ''+'' \<and> c \<noteq> CHR ''_''"
  by (auto simp: non_numeric_def is_space_def)

lemma split_no_sep: "sep \<notin> set s \<Longrightarrow> split sep s = [s]"
  by (induction s) auto

lemma is_digit_ascii: "is_digit c \<Longrightarrow> (of_char c :: nat) < 0x80"
  by (auto simp: is_digit_def)

lemma digits_is_ascii: "list_all is_digit s \<Longrightarrow> ascii_form s = Some s"
  by (auto simp: ascii_form_def is_ascii_def list_all_iff dest: is_digit_ascii)

lemma digit_string_literal:
  assumes "s \<noteq> []" and "list_all is_digit s" and "length s \<le> 4300"
  shows "int_literal s (int (face_value s))"
proof -
  have "CHR ''_'' \<notin> set s" using assms(2) is_digit_plain by (auto simp: list_all_iff)
  then have sp: "split CHR ''_'' s = [s]" by (rule split_no_sep)
  have f: "filter is_digit s = s" using assms(2) by (simp add: list_all_iff)
  have "s = [] @ [] @ s @ [] \<and> list_all is_space [] \<and> list_all is_space []
      \<and> (\<forall>g \<in> set (split CHR ''_'' s). g \<noteq> [] \<and> list_all is_digit g)
      \<and> length (filter is_digit s) \<le> 4300
      \<and> (([]::string) = [] \<and> int (face_value s) = int (face_value (filter is_digit s)))"
    using assms sp f by simp
  then show ?thesis unfolding int_literal_def by blast
qed

lemma int_of_str_digits:
  assumes "s \<noteq> []" and "list_all is_digit s" and "length s \<le> 4300"
  shows "int_of_str s = Inr (int (face_value s))"
  using digit_string_literal [OF assms] digits_is_ascii [OF assms(2)]
  by (simp add: int_of_str_def int_of_ascii_literal)

lemma int_of_str_too_long:
  assumes "list_all is_digit s" and "4300 < length s"
  shows "int_of_str s = Inl ValueError"
proof -
  obtain c cs where s: "s = c # cs" using assms(2) by (cases s) auto
  have ns: "\<forall>c \<in> set s. \<not> is_space c" using assms(1) is_digit_plain by (auto simp: list_all_iff)
  have st: "strip s = c # cs" using strip_no_space [OF ns] s by simp
  have c: "c \<noteq> CHR ''-''" "c \<noteq> CHR ''+''"
    using assms(1) s is_digit_plain by (auto simp: list_all_iff)
  have f: "filter is_digit (c # cs) = c # cs" using assms(1) s by (simp add: list_all_iff)
  have cap: "max_str_digits < length (filter is_digit (c # cs))"
    unfolding f using assms(2) s by (simp add: max_str_digits_def)
  have "int_of_ascii s = Inl ValueError"
    unfolding int_of_ascii_def st
    by (cases "digits False 0 (c # cs)")
       (simp_all add: c cap Let_def del: filter.simps digits.simps)
  then show ?thesis using digits_is_ascii [OF assms(1)] by (simp add: int_of_str_def)
qed

lemma int_of_ascii_non_numeric:
  assumes "c \<in> set t" and "non_numeric c"
  shows "int_of_ascii t = Inl ValueError"
proof -
  have p: "\<not> is_space c" "\<not> is_digit c" "c \<noteq> CHR ''-''" "c \<noteq> CHR ''+''" "c \<noteq> CHR ''_''"
    using non_numeric_plain [OF assms(2)] by auto
  have m: "c \<in> set (strip t)" using assms(1) p(1) by (rule in_strip)
  then obtain a as where st: "strip t = a # as" by (cases "strip t") auto
  have d: "digits False 0 (a # as) = None" using m st p digits_other_char by metis
  show ?thesis
  proof (cases "a = CHR ''-'' \<or> a = CHR ''+''")
    case True
    then have "c \<in> set as" using m st p by auto
    then have "digits False 0 as = None" using p digits_other_char by metis
    then show ?thesis using st True by (auto simp: int_of_ascii_def)
  next
    case False
    then show ?thesis using st d by (simp add: int_of_ascii_def)
  qed
qed

lemma int_of_str_non_numeric:
  assumes "c \<in> set s" and "non_numeric c"
  shows "int_of_str s = Inl ValueError"
proof (cases "ascii_form s")
  case None
  then show ?thesis by (simp add: int_of_str_def)
next
  case (Some t)
  have "(of_char c :: nat) < 127" using assms(2) by (simp add: non_numeric_def)
  then have "c \<in> set t" using ascii_form_keeps [OF Some assms(1)] by simp
  then show ?thesis using Some int_of_ascii_non_numeric [OF _ assms(2)] by (simp add: int_of_str_def)
qed

lemma int_of_ascii_nonneg:
  assumes "int_of_ascii t = Inr n" and "CHR ''-'' \<notin> set t"
  shows "0 \<le> n"
proof -
  have "CHR ''-'' \<notin> set (strip t)" using assms(2) set_strip by blast
  then show ?thesis using assms(1)
    by (auto simp: int_of_ascii_def Let_def split: list.splits if_splits option.splits)
qed

lemma int_of_str_nonneg:
  assumes "int_of_str s = Inr n" and "CHR ''-'' \<notin> set s"
  shows "0 \<le> n"
proof -
  obtain t where t: "ascii_form s = Some t" "int_of_ascii t = Inr n"
    using assms(1) by (cases "ascii_form s") (auto simp: int_of_str_def)
  have "CHR ''-'' \<notin> set t" using ascii_form_minus [OF t(1)] assms(2) by blast
  then show ?thesis using int_of_ascii_nonneg [OF t(2)] by simp
qed

lemma digit_char_not_minus: "d < 10 \<Longrightarrow> CHR ''-'' \<noteq> digit_char d"
proof
  assume d: "d < 10" and "CHR ''-'' = digit_char d"
  then have "(of_char (digit_char d) :: nat) = of_char CHR ''-''" by simp
  then show False using d by (simp add: digit_char_def)
qed

lemma str_nat_no_minus: "CHR ''-'' \<notin> set (str_nat n)"
proof (induction n rule: str_nat.induct)
  case (1 n)
  show ?case
  proof (cases "n < 10")
    case True
    then show ?thesis by (subst str_nat.simps) (simp add: digit_char_not_minus)
  next
    case False
    have "n mod 10 < 10" by simp
    then have "CHR ''-'' \<noteq> digit_char (n mod 10)" by (rule digit_char_not_minus)
    then show ?thesis using False 1 by (subst str_nat.simps) simp
  qed
qed

lemma stock_of_nonneg:
  assumes "stock_of q = Inr n" and "CHR ''-'' \<notin> set (py_str q)"
  shows "0 \<le> n"
proof (cases q)
  case VNone
  then show ?thesis using assms by (auto simp: stock_of_def)
next
  case (VInt i)
  then have "0 \<le> i" using assms(2) by (auto simp: str_int_def split: if_splits)
  then show ?thesis using assms(1) VInt by (auto simp: stock_of_def Let_def split: if_splits)
next
  case (VStr s)
  then show ?thesis using assms int_of_str_nonneg
    by (auto simp: stock_of_def Let_def split: if_splits)
qed

section \<open>Properties of the loop of \<^verbatim>\<open>create_stocks\<close>\<close>

lemma remove_present: "x \<in> set lst \<Longrightarrow> remove x lst = Inr (remove1 x lst)"
  by (simp add: remove_def)

lemma loop_Cons_match:
  assumes "code_of w \<in> set ids" and "stock_of (get w key_count) = Inr n"
  shows "create_stocks_loop (w # rest) acc ids =
         create_stocks_loop rest (acc @ [\<lparr>offer_id = code_of w, stock = n\<rparr>]) (remove1 (code_of w) ids)"
  using assms by (simp add: code_of_def remove_def)

lemma loop_Cons_fail:
  assumes "code_of w \<in> set ids" and "stock_of (get w key_count) = Inl e"
  shows "create_stocks_loop (w # rest) acc ids = (Inl e, ids)"
  using assms by (simp add: code_of_def)

lemma loop_Cons_skip:
  assumes "code_of w \<notin> set ids"
  shows "create_stocks_loop (w # rest) acc ids = create_stocks_loop rest acc ids"
  using assms by (simp add: code_of_def)

lemma loop_cases [consumes 1, case_names match skip]:
  assumes "create_stocks_loop (w # rest) acc ids = (Inr out, ids')"
    and "\<And>n. code_of w \<in> set ids \<Longrightarrow> stock_of (get w key_count) = Inr n \<Longrightarrow>
           create_stocks_loop rest (acc @ [\<lparr>offer_id = code_of w, stock = n\<rparr>])
             (remove1 (code_of w) ids) = (Inr out, ids') \<Longrightarrow> P"
    and "code_of w \<notin> set ids \<Longrightarrow> create_stocks_loop rest acc ids = (Inr out, ids') \<Longrightarrow> P"
  shows P
proof (cases "code_of w \<in> set ids")
  case True
  show ?thesis
  proof (cases "stock_of (get w key_count)")
    case (Inl e)
    then show ?thesis using assms(1) loop_Cons_fail [OF True Inl] by simp
  next
    case (Inr n)
    then show ?thesis using assms(1,2) True loop_Cons_match [OF True Inr] by simp
  qed
next
  case False
  then show ?thesis using assms(1,3) loop_Cons_skip [OF False] by simp
qed

lemma loop_ids_subset:
  "create_stocks_loop ws acc ids = (r, ids') \<Longrightarrow> set ids' \<subseteq> set ids \<and> (distinct ids \<longrightarrow> distinct ids')"
proof (induction ws arbitrary: acc ids)
  case Nil
  then show ?case by simp
next
  case (Cons w rest)
  show ?case
  proof (cases "code_of w \<in> set ids")
    case True
    show ?thesis
    proof (cases "stock_of (get w key_count)")
      case (Inl e)
      then show ?thesis using Cons.prems loop_Cons_fail [OF True Inl] by simp
    next
      case (Inr n)
      have "create_stocks_loop rest (acc @ [\<lparr>offer_id = code_of w, stock = n\<rparr>])
             (remove1 (code_of w) ids) = (r, ids')"
        using Cons.prems loop_Cons_match [OF True Inr] by simp
      from Cons.IH [OF this] show ?thesis
        using set_remove1_subset [of "code_of w" ids] by auto
    qed
  next
    case False
    then show ?thesis using Cons.prems Cons.IH loop_Cons_skip [OF False] by simp
  qed
qed

lemma loop_mset:
  "create_stocks_loop ws acc ids = (Inr out, ids') \<Longrightarrow>
   \<exists>m. out = acc @ m \<and> mset (map offer_id m) + mset ids' = mset ids
      \<and> (m = [] \<longrightarrow> ids' = ids)
      \<and> (\<forall>u \<in> set m. \<exists>w \<in> set ws. offer_id u = code_of w \<and> stock_of (get w key_count) = Inr (stock u))"
proof (induction ws arbitrary: acc ids)
  case Nil
  then show ?case by simp
next
  case (Cons w rest)
  from Cons.prems show ?case
  proof (cases rule: loop_cases)
    case (match n)
    define u where "u = \<lparr>offer_id = code_of w, stock = n\<rparr>"
    obtain m where m: "out = (acc @ [u]) @ m"
        "mset (map offer_id m) + mset ids' = mset (remove1 (code_of w) ids)"
        "\<forall>v \<in> set m. \<exists>w' \<in> set rest. offer_id v = code_of w' \<and> stock_of (get w' key_count) = Inr (stock v)"
      using Cons.IH [OF match(3)] unfolding u_def by blast
    have a: "out = acc @ (u # m)" using m(1) by simp
    have "add_mset (code_of w) (mset (remove1 (code_of w) ids)) = mset ids"
      using match(1) by simp
    then have b: "mset (map offer_id (u # m)) + mset ids' = mset ids"
      using m(2) by (simp add: u_def)
    have c: "\<forall>v \<in> set (u # m). \<exists>w' \<in> set (w # rest).
               offer_id v = code_of w' \<and> stock_of (get w' key_count) = Inr (stock v)"
      using m(3) match(2) by (simp add: u_def)
    show ?thesis using a b c by blast
  next
    case skip
    from Cons.IH [OF skip(2)] show ?thesis by auto
  qed
qed

lemma loop_none_left:
  "create_stocks_loop ws acc ids = (Inr out, ids') \<Longrightarrow> distinct ids \<Longrightarrow>
   \<forall>w \<in> set ws. code_of w \<notin> set ids'"
proof (induction ws arbitrary: acc ids)
  case Nil
  then show ?case by simp
next
  case (Cons w rest)
  from Cons.prems(1) show ?case
  proof (cases rule: loop_cases)
    case (match n)
    have d: "distinct (remove1 (code_of w) ids)" using Cons.prems(2) by simp
    have "code_of w \<notin> set (remove1 (code_of w) ids)" using Cons.prems(2) by simp
    then have "code_of w \<notin> set ids'" using loop_ids_subset [OF match(3)] by blast
    then show ?thesis using Cons.IH [OF match(3) d] by simp
  next
    case skip
    have "code_of w \<notin> set ids'" using skip(1) loop_ids_subset [OF skip(2)] by blast
    then show ?thesis using Cons.IH [OF skip(2) Cons.prems(2)] by simp
  qed
qed

lemma loop_first_match:
  "create_stocks_loop ws acc ids = (Inr out, ids') \<Longrightarrow> i \<in> set ids \<Longrightarrow>
   set acc \<subseteq> set out \<and>
   (case find (\<lambda>w. code_of w = i) ws of
      None \<Rightarrow> i \<in> set ids'
    | Some w \<Rightarrow> \<exists>n. stock_of (get w key_count) = Inr n \<and> \<lparr>offer_id = i, stock = n\<rparr> \<in> set out)"
proof (induction ws arbitrary: acc ids)
  case Nil
  then show ?case by simp
next
  case (Cons w rest)
  from Cons.prems(1) show ?case
  proof (cases rule: loop_cases)
    case (match n)
    show ?thesis
    proof (cases "code_of w = i")
      case True
      have "set (acc @ [\<lparr>offer_id = code_of w, stock = n\<rparr>]) \<subseteq> set out"
        using loop_mset [OF match(3)] by auto
      then show ?thesis using True match(2) by auto
    next
      case False
      then have "i \<in> set (remove1 (code_of w) ids)" using Cons.prems(2) by simp
      from Cons.IH [OF match(3) this] show ?thesis using False by auto
    qed
  next
    case skip
    then have "code_of w \<noteq> i" using Cons.prems(2) by auto
    then show ?thesis using Cons.IH [OF skip(2) Cons.prems(2)] by simp
  qed
qed

lemma create_stocks_Inr:
  "create_stocks ws ids = (Inr out, ids') \<Longrightarrow>
   \<exists>m. create_stocks_loop ws [] ids = (Inr m, ids') \<and> out = m @ map zero_stock ids'"
  unfolding create_stocks_def zero_stock_def
  by (auto split: prod.splits sum.splits)

lemma prices_loop_no_match:
  "\<forall>w \<in> set ws. code_of w \<notin> set ids \<Longrightarrow> create_prices_loop ws acc ids = Inr acc"
  by (induction ws arbitrary: acc) (auto simp: code_of_def)

lemma stocks_loop_no_match:
  "\<forall>w \<in> set ws. code_of w \<notin> set ids \<Longrightarrow> create_stocks_loop ws acc ids = (Inr acc, ids)"
  by (induction ws arbitrary: acc) (auto simp: code_of_def)

section \<open>The stock of a row\<close>

lemmas int_eval = int_of_str_def ascii_form_def is_ascii_def int_of_ascii_def max_str_digits_def
  strip_def is_space_def is_digit_def digit_val_def Let_def

lemmas unicode_eval = unicode_space_def unicode_decimal_def decimal_zeros_def digit_char_def
  char_of_eq_iff

lemma stock_of_other:
  "s \<noteq> ''>10'' \<Longrightarrow> s \<noteq> ''1'' \<Longrightarrow> stock_of (VStr s) = int_of_str s"
  by (simp add: stock_of_def)

text \<open>
  Claim C5 says that every string other than \<^verbatim>\<open>>10\<close> and \<^verbatim>\<open>1\<close> that is numeric is taken
  at face value. A string of 4301 zeros is numeric, and \<^verbatim>\<open>int\<close> refuses it with a
  ValueError, since it has more digits than the interpreter converts.
\<close>

theorem stock_of_digit_limit_counterexample:
  "list_all is_digit (replicate 4301 CHR ''0'')
   \<and> replicate 4301 CHR ''0'' \<noteq> ''>10''
   \<and> replicate 4301 CHR ''0'' \<noteq> ''1''
   \<and> stock_of (VStr (replicate 4301 CHR ''0'')) = Inl ValueError"
proof -
  have d: "list_all is_digit (replicate 4301 CHR ''0'')"
    by (simp add: list_all_iff is_digit_def)
  have l: "length (replicate 4301 CHR ''0'') = 4301" by simp
  have n: "replicate 4301 CHR ''0'' \<noteq> ''>10''" "replicate 4301 CHR ''0'' \<noteq> ''1''"
  proof -
    have "length (replicate 4301 CHR ''0'') \<noteq> length ''>10''"
      "length (replicate 4301 CHR ''0'') \<noteq> length ''1''"
      by simp_all
    then show "replicate 4301 CHR ''0'' \<noteq> ''>10''" "replicate 4301 CHR ''0'' \<noteq> ''1''"
      by fastforce+
  qed
  have "int_of_str (replicate 4301 CHR ''0'') = Inl ValueError"
    using d l by (simp add: int_of_str_too_long)
  then show ?thesis using d n by (simp add: stock_of_other)
qed

text \<open>
  Claim C5, amended. The quantity \<^verbatim>\<open>>10\<close> gives the stock \<open>100\<close>, the quantity \<^verbatim>\<open>1\<close> gives
  \<open>0\<close>, and every other string is what \<^verbatim>\<open>int\<close> makes of it: the stock is \<open>v\<close> exactly when
  the text, brought to ASCII, is an integer literal of value \<open>v\<close> (white space, an optional
  sign, digits grouped by single underscores, white space, at most 4300 digits), and the
  row fails with ValueError exactly when it is no such literal. So a string of at most
  4300 ASCII digits gives its value in base ten (\<^verbatim>\<open>7\<close> gives \<open>7\<close>), a string of more than
  4300 digits fails, and a string that holds a printable ASCII character other than a
  digit, a sign or an underscore fails; the empty string, a lone sign, a misplaced or a
  doubled underscore and digits apart fail, white space around the literal (tab, line
  feed, vertical tab, form feed, carriage return, blank) and zeros before it are allowed, the digits and spaces of other scripts count (the Arabic-Indic
  seven, the no-break space), and the minus sign U+2212 is no sign.
\<close>

theorem stock_of_bucketing_policy:
  "stock_of (VStr ''>10'') = Inr 100
   \<and> stock_of (VStr ''1'') = Inr 0
   \<and> stock_of (VStr ''7'') = Inr 7
   \<and> (s \<noteq> ''>10'' \<and> s \<noteq> ''1'' \<longrightarrow>
        (stock_of (VStr s) = Inr v \<longleftrightarrow> (\<exists>t. ascii_form s = Some t \<and> int_literal t v))
        \<and> (stock_of (VStr s) = Inl ValueError
              \<longleftrightarrow> \<not> (\<exists>t v'. ascii_form s = Some t \<and> int_literal t v')))
   \<and> (list_all (\<lambda>c. (of_char c :: nat) < 0x80) s \<longrightarrow> ascii_form s = Some s)
   \<and> (s \<noteq> [] \<and> s \<noteq> ''1'' \<and> list_all is_digit s \<and> length s \<le> 4300 \<longrightarrow>
        stock_of (VStr s) = Inr (int (face_value s)))
   \<and> (list_all is_digit s \<and> 4300 < length s \<longrightarrow> stock_of (VStr s) = Inl ValueError)
   \<and> (s \<noteq> ''>10'' \<and> (\<exists>c \<in> set s. non_numeric c) \<longrightarrow> stock_of (VStr s) = Inl ValueError)
   \<and> stock_of (VStr []) = Inl ValueError
   \<and> stock_of (VStr '' '') = Inl ValueError
   \<and> stock_of (VStr ''+'') = Inl ValueError
   \<and> stock_of (VStr ''-'') = Inl ValueError
   \<and> stock_of (VStr ''_1'') = Inl ValueError
   \<and> stock_of (VStr ''1_'') = Inl ValueError
   \<and> stock_of (VStr ''1__0'') = Inl ValueError
   \<and> stock_of (VStr ''1 0'') = Inl ValueError
   \<and> stock_of (VStr ''+ 7'') = Inl ValueError
   \<and> stock_of (VStr ''abc'') = Inl ValueError
   \<and> stock_of (VStr ''1.5'') = Inl ValueError
   \<and> stock_of (VStr '' 7 '') = Inr 7
   \<and> stock_of (VStr ''+7'') = Inr 7
   \<and> stock_of (VStr ''-7'') = Inr (- 7)
   \<and> stock_of (VStr ''1_000'') = Inr 1000
   \<and> stock_of (VStr ''007'') = Inr 7
   \<and> stock_of (VStr '' 1'') = Inr 1
   \<and> stock_of (VStr [CHR 0xD9, CHR 0xA7]) = Inr 7
   \<and> stock_of (VStr [CHR 0xC2, CHR 0xA0, CHR ''7'']) = Inr 7
   \<and> stock_of (VStr [CHR 0xE2, CHR 0x88, CHR 0x92, CHR ''5'']) = Inl ValueError
   \<and> stock_of (VStr [CHR 0x09, CHR ''7'', CHR 0x0A]) = Inr 7
   \<and> stock_of (VStr [CHR 0x0B, CHR ''7'', CHR 0x0C, CHR 0x0D]) = Inr 7
   \<and> stock_of (VStr [CHR 0x1C, CHR ''7'']) = Inl ValueError"
proof -
  have a: "stock_of (VStr ''>10'') = Inr 100" "stock_of (VStr ''1'') = Inr 0"
    by (simp_all add: stock_of_def)
  have b: "stock_of (VStr ''7'') = Inr 7" by (simp add: stock_of_def int_eval)
  have c: "s \<noteq> ''>10'' \<and> s \<noteq> ''1'' \<longrightarrow>
        (stock_of (VStr s) = Inr v \<longleftrightarrow> (\<exists>t. ascii_form s = Some t \<and> int_literal t v))
        \<and> (stock_of (VStr s) = Inl ValueError
              \<longleftrightarrow> \<not> (\<exists>t v'. ascii_form s = Some t \<and> int_literal t v'))"
    using int_of_str_literal [of s v] int_of_str_error [of s] by (simp add: stock_of_other)
  have d: "list_all (\<lambda>c. (of_char c :: nat) < 0x80) s \<longrightarrow> ascii_form s = Some s"
    by (simp add: ascii_form_def is_ascii_def)
  have e: "s \<noteq> [] \<and> s \<noteq> ''1'' \<and> list_all is_digit s \<and> length s \<le> 4300 \<longrightarrow>
        stock_of (VStr s) = Inr (int (face_value s))"
  proof (intro impI, elim conjE)
    assume s: "s \<noteq> []" "s \<noteq> ''1''" "list_all is_digit s" "length s \<le> 4300"
    have "\<not> is_digit CHR ''>''" by (simp add: is_digit_def)
    then have "s \<noteq> ''>10''" using s(3) by auto
    then show "stock_of (VStr s) = Inr (int (face_value s))"
      using s int_of_str_digits [of s] by (simp add: stock_of_other)
  qed
  have f: "list_all is_digit s \<and> 4300 < length s \<longrightarrow> stock_of (VStr s) = Inl ValueError"
  proof (intro impI, elim conjE)
    assume s: "list_all is_digit s" "4300 < length s"
    have "length s \<noteq> length ''>10''" "length s \<noteq> length ''1''" using s(2) by simp_all
    then have "s \<noteq> ''>10''" "s \<noteq> ''1''" by fastforce+
    then show "stock_of (VStr s) = Inl ValueError"
      using s int_of_str_too_long [of s] by (simp add: stock_of_other)
  qed
  have g: "s \<noteq> ''>10'' \<and> (\<exists>c \<in> set s. non_numeric c) \<longrightarrow> stock_of (VStr s) = Inl ValueError"
  proof (intro impI, elim conjE bexE)
    fix c assume s: "s \<noteq> ''>10''" "c \<in> set s" "non_numeric c"
    have "\<not> non_numeric CHR ''1''" by (simp add: non_numeric_def is_digit_def)
    then have "s \<noteq> ''1''" using s(2,3) by auto
    then show "stock_of (VStr s) = Inl ValueError"
      using s int_of_str_non_numeric [of c s] by (simp add: stock_of_other)
  qed
  have x1: "stock_of (VStr []) = Inl ValueError" "stock_of (VStr '' '') = Inl ValueError"
      "stock_of (VStr ''+'') = Inl ValueError" "stock_of (VStr ''-'') = Inl ValueError"
      "stock_of (VStr ''_1'') = Inl ValueError" "stock_of (VStr ''1_'') = Inl ValueError"
      "stock_of (VStr ''1__0'') = Inl ValueError" "stock_of (VStr ''1 0'') = Inl ValueError"
      "stock_of (VStr ''+ 7'') = Inl ValueError" "stock_of (VStr ''abc'') = Inl ValueError"
      "stock_of (VStr ''1.5'') = Inl ValueError"
    by (simp_all add: stock_of_def int_eval)
  have x2: "stock_of (VStr '' 7 '') = Inr 7" "stock_of (VStr ''+7'') = Inr 7"
      "stock_of (VStr ''-7'') = Inr (- 7)" "stock_of (VStr ''1_000'') = Inr 1000"
      "stock_of (VStr ''007'') = Inr 7" "stock_of (VStr '' 1'') = Inr 1"
    by (simp_all add: stock_of_def int_eval)
  have x3: "stock_of (VStr [CHR 0xD9, CHR 0xA7]) = Inr 7"
      "stock_of (VStr [CHR 0xC2, CHR 0xA0, CHR ''7'']) = Inr 7"
      "stock_of (VStr [CHR 0xE2, CHR 0x88, CHR 0x92, CHR ''5'']) = Inl ValueError"
    by (simp_all add: stock_of_def int_eval unicode_eval)
  have x4: "stock_of (VStr [CHR 0x09, CHR ''7'', CHR 0x0A]) = Inr 7"
      "stock_of (VStr [CHR 0x0B, CHR ''7'', CHR 0x0C, CHR 0x0D]) = Inr 7"
      "stock_of (VStr [CHR 0x1C, CHR ''7'']) = Inl ValueError"
    by (simp_all add: stock_of_def int_eval)
  show ?thesis
    using a b c d e f g x1 x2 x3 x4 by (intro conjI) assumption+
qed

theorem stock_of_bucketing_policy_witness:
  "stock_of (VStr ''42'') = Inr 42
   \<and> stock_of (VStr ''1.5'') = Inl ValueError
   \<and> stock_of (VStr (replicate 4301 CHR ''0'')) = Inl ValueError
   \<and> (\<exists>t. ascii_form '' -1_000 '' = Some t \<and> int_literal t (- 1000))
   \<and> \<not> (\<exists>t v. ascii_form ''1__0'' = Some t \<and> int_literal t v)"
proof -
  have d: "''42'' \<noteq> [] \<and> ''42'' \<noteq> ''1'' \<and> list_all is_digit ''42'' \<and> length ''42'' \<le> 4300"
    by (simp add: is_digit_def)
  have v: "face_value ''42'' = 42" by (simp add: face_value_def digit_val_def)
  have n: "''1.5'' \<noteq> ''>10'' \<and> (\<exists>c \<in> set ''1.5''. non_numeric c)"
    by (simp add: non_numeric_def is_digit_def)
  have z: "list_all is_digit (replicate 4301 CHR ''0'') \<and> 4300 < length (replicate 4301 CHR ''0'')"
    by (simp add: list_all_iff is_digit_def)
  have o: "'' -1_000 '' \<noteq> ''>10'' \<and> '' -1_000 '' \<noteq> ''1''"
      "''1__0'' \<noteq> ''>10'' \<and> ''1__0'' \<noteq> ''1''" by simp_all
  have p: "stock_of (VStr '' -1_000 '') = Inr (- 1000)"
      "stock_of (VStr ''1__0'') = Inl ValueError"
    by (simp_all add: stock_of_def int_eval)
  have w1: "stock_of (VStr ''42'') = Inr (int (face_value ''42''))"
    using stock_of_bucketing_policy [of "''42''"] d by blast
  have w2: "stock_of (VStr ''1.5'') = Inl ValueError"
    using stock_of_bucketing_policy [of "''1.5''"] n by blast
  have w3: "stock_of (VStr (replicate 4301 CHR ''0'')) = Inl ValueError"
    using stock_of_bucketing_policy [of "replicate 4301 CHR ''0''"] z by blast
  have w4: "\<exists>t. ascii_form '' -1_000 '' = Some t \<and> int_literal t (- 1000)"
    using stock_of_bucketing_policy [of "'' -1_000 ''" "- 1000"] o(1) p(1) by blast
  have w5: "\<not> (\<exists>t v. ascii_form ''1__0'' = Some t \<and> int_literal t v)"
    using stock_of_bucketing_policy [of "''1__0''"] o(2) p(2) by blast
  show ?thesis using w1 w2 w3 w4 w5 v by simp
qed

lemma loop_stock_nonneg:
  assumes "create_stocks_loop ws acc ids = (Inr out, ids')"
    and "\<forall>w \<in> set ws. CHR ''-'' \<notin> set (py_str (get w key_count))"
    and "\<forall>u \<in> set acc. 0 \<le> stock u"
  shows "\<forall>u \<in> set out. 0 \<le> stock u"
proof -
  obtain m where m: "out = acc @ m"
      "\<forall>u \<in> set m. \<exists>w \<in> set ws. offer_id u = code_of w \<and> stock_of (get w key_count) = Inr (stock u)"
    using loop_mset [OF assms(1)] by blast
  have "\<forall>u \<in> set m. 0 \<le> stock u"
    using m(2) assms(2) stock_of_nonneg by blast
  then show ?thesis using m(1) assms(3) by auto
qed

text \<open>
  Claim C7 says that the stock is never negative. It is negative for the quantity
  \<^verbatim>\<open>-5\<close>, which \<^verbatim>\<open>int\<close> reads at face value, and \<^verbatim>\<open>create_stocks\<close> emits that stock.
\<close>

theorem stock_negative_counterexample:
  "stock_of (VStr ''-5'') = Inr (- 5) \<and> \<not> (0::int) \<le> - 5
   \<and> fst (create_stocks [[key_code \<mapsto> VStr ''A'', key_count \<mapsto> VStr ''-5'']] [''A''])
       = Inr [\<lparr>offer_id = ''A'', stock = - 5\<rparr>]"
  by (simp add: create_stocks_def stock_of_def int_eval strip_def is_space_def
      is_digit_def digit_val_def get_def key_code_def key_count_def remove_def)

text \<open>
  Claim C7, amended. Whenever the stock of a row is computed from a quantity whose
  string form holds no minus sign, it is at least \<open>0\<close>; and when no row's quantity holds a
  minus sign, every update that \<^verbatim>\<open>create_stocks\<close> returns carries a stock of at least \<open>0\<close>.
\<close>

theorem stock_nonneg_without_minus:
  "(stock_of q = Inr n \<and> CHR ''-'' \<notin> set (py_str q) \<longrightarrow> 0 \<le> n)
   \<and> (create_stocks ws ids = (Inr out, ids')
        \<and> (\<forall>w \<in> set ws. CHR ''-'' \<notin> set (py_str (get w key_count)))
      \<longrightarrow> (\<forall>u \<in> set out. 0 \<le> stock u))"
proof -
  have a: "stock_of q = Inr n \<and> CHR ''-'' \<notin> set (py_str q) \<longrightarrow> 0 \<le> n"
    using stock_of_nonneg by blast
  have b: "create_stocks ws ids = (Inr out, ids')
        \<and> (\<forall>w \<in> set ws. CHR ''-'' \<notin> set (py_str (get w key_count)))
      \<longrightarrow> (\<forall>u \<in> set out. 0 \<le> stock u)"
  proof (intro impI, elim conjE)
    assume c: "create_stocks ws ids = (Inr out, ids')"
      and h: "\<forall>w \<in> set ws. CHR ''-'' \<notin> set (py_str (get w key_count))"
    obtain m where m: "create_stocks_loop ws [] ids = (Inr m, ids')" "out = m @ map zero_stock ids'"
      using create_stocks_Inr [OF c] by blast
    have "\<forall>u \<in> set m. 0 \<le> stock u" using loop_stock_nonneg [OF m(1) h] by simp
    then show "\<forall>u \<in> set out. 0 \<le> stock u" using m(2) by (auto simp: zero_stock_def)
  qed
  show ?thesis using a b by blast
qed

theorem stock_nonneg_without_minus_witness:
  "stock_of (VStr ''7'') = Inr 7 \<and> CHR ''-'' \<notin> set (py_str (VStr ''7'')) \<and> (0::int) \<le> 7
   \<and> create_stocks [[key_code \<mapsto> VStr ''A'', key_count \<mapsto> VStr ''7'']] [''A'', ''B'']
        = (Inr [\<lparr>offer_id = ''A'', stock = 7\<rparr>, \<lparr>offer_id = ''B'', stock = 0\<rparr>], [''B''])
   \<and> CHR ''-'' \<notin> set (py_str (get [key_code \<mapsto> VStr ''A'', key_count \<mapsto> VStr ''7''] key_count))
   \<and> list_all (\<lambda>u. 0 \<le> stock u)
        [\<lparr>offer_id = ''A'', stock = 7\<rparr>, \<lparr>offer_id = ''B'', stock = 0\<rparr>]"
proof -
  have s: "stock_of (VStr ''7'') = Inr 7"
    by (simp add: stock_of_def int_eval strip_def is_space_def is_digit_def digit_val_def)
  have c: "create_stocks [[key_code \<mapsto> VStr ''A'', key_count \<mapsto> VStr ''7'']] [''A'', ''B'']
        = (Inr [\<lparr>offer_id = ''A'', stock = 7\<rparr>, \<lparr>offer_id = ''B'', stock = 0\<rparr>], [''B''])"
    by (simp add: create_stocks_def stock_of_def int_eval strip_def is_space_def
      is_digit_def digit_val_def get_def key_code_def key_count_def remove_def)
  have h: "\<forall>w \<in> set [[key_code \<mapsto> VStr ''A'', key_count \<mapsto> VStr ''7'']].
         CHR ''-'' \<notin> set (py_str (get w key_count))"
    by (simp add: get_def key_code_def key_count_def)
  have n: "0 \<le> (7::int)"
    using stock_nonneg_without_minus [of "VStr ''7''" 7] s by simp
  have u: "\<forall>u \<in> set [\<lparr>offer_id = ''A'', stock = 7\<rparr>, \<lparr>offer_id = ''B'', stock = 0\<rparr>]. 0 \<le> stock u"
    using stock_nonneg_without_minus [of _ _
        "[[key_code \<mapsto> VStr ''A'', key_count \<mapsto> VStr ''7'']]" "[''A'', ''B'']"
        "[\<lparr>offer_id = ''A'', stock = 7\<rparr>, \<lparr>offer_id = ''B'', stock = 0\<rparr>]" "[''B'']"] c h
    by blast
  show ?thesis using s c h n u by simp
qed

section \<open>Properties of \<^verbatim>\<open>create_stocks\<close>\<close>

text \<open>
  Claim C1. For every sequence of supplier rows and every duplicate-free list of offer
  ids, the updates that \<^verbatim>\<open>create_stocks\<close> returns hold exactly one update per offer id
  of the list, neither more nor fewer. An id that some row carries gets the stock of the
  first such row (later rows with the same code are skipped, the id being consumed); an
  id that no row carries is left in the list and gets the stock \<open>0\<close>.
\<close>

theorem create_stocks_one_update_per_offer_id:
  assumes "distinct offer_ids" and "create_stocks ws offer_ids = (Inr out, rest)"
  shows "mset (map offer_id out) = mset offer_ids
     \<and> distinct (map offer_id out)
     \<and> set rest = set offer_ids - code_of ` set ws
     \<and> (\<forall>i \<in> set offer_ids.
           case find (\<lambda>w. code_of w = i) ws of
             None \<Rightarrow> \<lparr>offer_id = i, stock = 0\<rparr> \<in> set out
           | Some w \<Rightarrow> \<exists>n. stock_of (get w key_count) = Inr n \<and> \<lparr>offer_id = i, stock = n\<rparr> \<in> set out)"
proof -
  obtain m where m: "create_stocks_loop ws [] offer_ids = (Inr m, rest)"
      "out = m @ map zero_stock rest"
    using create_stocks_Inr [OF assms(2)] by blast
  obtain m' where m': "m = [] @ m'" "mset (map offer_id m') + mset rest = mset offer_ids"
      "\<forall>u \<in> set m'. \<exists>w \<in> set ws. offer_id u = code_of w \<and> stock_of (get w key_count) = Inr (stock u)"
    using loop_mset [OF m(1)] by blast
  have z: "map offer_id (map zero_stock rest) = rest"
    by (induction rest) (simp_all add: zero_stock_def)
  have a: "mset (map offer_id out) = mset offer_ids"
    using m(2) m'(1,2) z by simp
  have b: "distinct (map offer_id out)"
    using a assms(1) by (metis distinct_count_atmost_1 set_mset_mset)
  have none: "\<forall>w \<in> set ws. code_of w \<notin> set rest"
    using loop_none_left [OF m(1) assms(1)] .
  have sub: "set rest \<subseteq> set offer_ids" using loop_ids_subset [OF m(1)] by simp
  have c: "set rest = set offer_ids - code_of ` set ws"
  proof
    show "set rest \<subseteq> set offer_ids - code_of ` set ws" using sub none by auto
  next
    show "set offer_ids - code_of ` set ws \<subseteq> set rest"
    proof
      fix i assume i: "i \<in> set offer_ids - code_of ` set ws"
      then have "i \<in># mset (map offer_id m') + mset rest" using m'(2) by simp
      then have "i \<in> set (map offer_id m') \<or> i \<in> set rest" by auto
      moreover have "i \<notin> set (map offer_id m')" using i m'(3) by auto
      ultimately show "i \<in> set rest" by simp
    qed
  qed
  have d: "\<forall>i \<in> set offer_ids.
           case find (\<lambda>w. code_of w = i) ws of
             None \<Rightarrow> \<lparr>offer_id = i, stock = 0\<rparr> \<in> set out
           | Some w \<Rightarrow> \<exists>n. stock_of (get w key_count) = Inr n \<and> \<lparr>offer_id = i, stock = n\<rparr> \<in> set out"
  proof
    fix i assume i: "i \<in> set offer_ids"
    have f: "case find (\<lambda>w. code_of w = i) ws of
          None \<Rightarrow> i \<in> set rest
        | Some w \<Rightarrow> \<exists>n. stock_of (get w key_count) = Inr n \<and> \<lparr>offer_id = i, stock = n\<rparr> \<in> set m"
      using loop_first_match [OF m(1) i] by simp
    show "case find (\<lambda>w. code_of w = i) ws of
             None \<Rightarrow> \<lparr>offer_id = i, stock = 0\<rparr> \<in> set out
           | Some w \<Rightarrow> \<exists>n. stock_of (get w key_count) = Inr n \<and> \<lparr>offer_id = i, stock = n\<rparr> \<in> set out"
    proof (cases "find (\<lambda>w. code_of w = i) ws")
      case None
      then have "i \<in> set rest" using f by simp
      then have "zero_stock i \<in> set out" using m(2) by simp
      then show ?thesis using None by (simp add: zero_stock_def)
    next
      case (Some w)
      then show ?thesis using f m(2) by auto
    qed
  qed
  show ?thesis using a b c d by blast
qed

theorem create_stocks_one_update_per_offer_id_witness:
  "distinct [''A'', ''B'', ''C'']
   \<and> create_stocks
        [[key_code \<mapsto> VStr ''B'', key_count \<mapsto> VStr ''5''],
         [key_code \<mapsto> VStr ''Z'', key_count \<mapsto> VStr ''4''],
         [key_code \<mapsto> VStr ''B'', key_count \<mapsto> VStr ''>10'']]
        [''A'', ''B'', ''C'']
      = (Inr [\<lparr>offer_id = ''B'', stock = 5\<rparr>, \<lparr>offer_id = ''A'', stock = 0\<rparr>,
              \<lparr>offer_id = ''C'', stock = 0\<rparr>], [''A'', ''C''])
   \<and> mset (map offer_id [\<lparr>offer_id = ''B'', stock = 5\<rparr>, \<lparr>offer_id = ''A'', stock = 0\<rparr>,
              \<lparr>offer_id = ''C'', stock = 0\<rparr>]) = mset [''A'', ''B'', ''C'']"
proof -
  have c: "create_stocks
        [[key_code \<mapsto> VStr ''B'', key_count \<mapsto> VStr ''5''],
         [key_code \<mapsto> VStr ''Z'', key_count \<mapsto> VStr ''4''],
         [key_code \<mapsto> VStr ''B'', key_count \<mapsto> VStr ''>10'']]
        [''A'', ''B'', ''C'']
      = (Inr [\<lparr>offer_id = ''B'', stock = 5\<rparr>, \<lparr>offer_id = ''A'', stock = 0\<rparr>,
              \<lparr>offer_id = ''C'', stock = 0\<rparr>], [''A'', ''C''])"
    by (simp add: create_stocks_def stock_of_def int_eval strip_def is_space_def
      is_digit_def digit_val_def get_def key_code_def key_count_def remove_def)
  have d: "distinct [''A'', ''B'', ''C'']" by simp
  have "mset (map offer_id [\<lparr>offer_id = ''B'', stock = 5\<rparr>, \<lparr>offer_id = ''A'', stock = 0\<rparr>,
              \<lparr>offer_id = ''C'', stock = 0\<rparr>]) = mset [''A'', ''B'', ''C'']"
    using create_stocks_one_update_per_offer_id [OF d c] by blast
  then show ?thesis using c d by blast
qed

section \<open>Properties of \<^verbatim>\<open>main\<close>\<close>

lemma upload_prefix:
  "upload call outcome k bs = (tr, r) \<Longrightarrow>
   \<exists>j \<le> length bs. tr = map call (take j bs) \<and> (r = None \<longrightarrow> j = length bs)"
proof (induction bs arbitrary: k tr r)
  case Nil
  then show ?case by simp
next
  case (Cons b bs)
  show ?case
  proof (cases "outcome k")
    case (Some e)
    then have "tr = [call b]" "r = Some e" using Cons.prems by auto
    then have "tr = map call (take 1 (b # bs)) \<and> (r = None \<longrightarrow> 1 = length (b # bs))" by simp
    moreover have "1 \<le> length (b # bs)" by simp
    ultimately show ?thesis by blast
  next
    case None
    obtain tr' r' where u: "upload call outcome (Suc k) bs = (tr', r')" by fastforce
    then have t: "tr = call b # tr'" "r = r'" using Cons.prems None by auto
    obtain j where j: "j \<le> length bs" "tr' = map call (take j bs)" "r' = None \<longrightarrow> j = length bs"
      using Cons.IH [OF u] by blast
    have "Suc j \<le> length (b # bs) \<and> tr = map call (take (Suc j) (b # bs))
          \<and> (r = None \<longrightarrow> Suc j = length (b # bs))"
      using j t by simp
    then show ?thesis by blast
  qed
qed

lemma divide_Nil: "n \<noteq> 0 \<Longrightarrow> divide [] n = Inr []"
  by (simp add: divide_def range_step.simps)

text \<open>
  Claim C10. For every sequence of supplier rows and every duplicate-free list of offer
  ids, if \<^verbatim>\<open>create_stocks\<close> returns, then \<^verbatim>\<open>create_prices\<close> on the same rows and on the
  list as \<^verbatim>\<open>create_stocks\<close> left it returns the empty list; so a run of \<^verbatim>\<open>main\<close> on such a
  catalog never calls \<^verbatim>\<open>update_price\<close>.
\<close>

theorem create_prices_after_create_stocks_empty:
  assumes "distinct offer_ids" and "create_stocks ws offer_ids = (Inr stocks, offer_ids')"
  shows "create_prices ws offer_ids' = Inr []
     \<and> (get_offer_ids w = Inr offer_ids \<and> download_stock w = Inr ws \<longrightarrow>
          (\<forall>batch. Update_price batch \<notin> set (main w)))"
proof -
  obtain m where m: "create_stocks_loop ws [] offer_ids = (Inr m, offer_ids')"
    using create_stocks_Inr [OF assms(2)] by blast
  have none: "\<forall>w \<in> set ws. code_of w \<notin> set offer_ids'"
    using loop_none_left [OF m assms(1)] .
  have p: "create_prices ws offer_ids' = Inr []"
    unfolding create_prices_def using none by (rule prices_loop_no_match)
  have q: "\<forall>batch. Update_price batch \<notin> set (main w)"
    if g: "get_offer_ids w = Inr offer_ids" and d: "download_stock w = Inr ws"
  proof -
    obtain batches where b: "divide stocks 100 = Inr batches" by (simp add: divide_def)
    obtain tr r where u: "upload Update_stocks (update_stocks w) 0 batches = (tr, r)"
      by fastforce
    obtain j where j: "tr = map Update_stocks (take j batches)"
      using upload_prefix [OF u] by blast
    have e: "divide ([] :: price_update list) 900 = Inr []" by (simp add: divide_Nil)
    have mt: "main_try w = (tr, r)"
      using g d assms(2) b u p e by (cases r) (simp_all add: main_try_def)
    have "main w = tr \<or> (\<exists>e. main w = tr @ [handler e])"
      using mt by (cases r) (auto simp: main_def)
    moreover have "\<forall>batch. Update_price batch \<notin> set tr" using j by auto
    moreover have "\<forall>batch e. Update_price batch \<noteq> handler e" by (simp add: handler_def)
    ultimately show ?thesis by auto
  qed
  show ?thesis using p q by blast
qed


theorem create_prices_after_create_stocks_empty_witness:
  "distinct [''X'']
   \<and> create_stocks [[key_code \<mapsto> VStr ''X'', key_count \<mapsto> VStr ''>10'',
                     key_price \<mapsto> VStr ''1234.50'']] [''X'']
       = (Inr [\<lparr>offer_id = ''X'', stock = 100\<rparr>], [])
   \<and> create_prices [[key_code \<mapsto> VStr ''X'', key_count \<mapsto> VStr ''>10'',
                     key_price \<mapsto> VStr ''1234.50'']] [] = Inr []
   \<and> (\<forall>batch. Update_price batch \<notin> set (main
         \<lparr>get_offer_ids = Inr [''X''],
          download_stock = Inr [[key_code \<mapsto> VStr ''X'', key_count \<mapsto> VStr ''>10'',
                                 key_price \<mapsto> VStr ''1234.50'']],
          update_stocks = (\<lambda>k. None), update_price = (\<lambda>k. None)\<rparr>))"
proof -
  have d: "distinct [''X'']" by simp
  have c: "create_stocks [[key_code \<mapsto> VStr ''X'', key_count \<mapsto> VStr ''>10'',
                     key_price \<mapsto> VStr ''1234.50'']] [''X'']
       = (Inr [\<lparr>offer_id = ''X'', stock = 100\<rparr>], [])"
    by (simp add: create_stocks_def stock_of_def get_def key_code_def key_count_def
        key_price_def remove_def)
  show ?thesis
    using create_prices_after_create_stocks_empty [OF d c, of
         "\<lparr>get_offer_ids = Inr [''X''],
          download_stock = Inr [[key_code \<mapsto> VStr ''X'', key_count \<mapsto> VStr ''>10'',
                                 key_price \<mapsto> VStr ''1234.50'']],
          update_stocks = (\<lambda>k. None), update_price = (\<lambda>k. None)\<rparr>"] c d
    by simp
qed

text \<open>
  Claim C3 expects, for the catalog \<^verbatim>\<open>X\<close> and the one row with code \<^verbatim>\<open>X\<close>, quantity
  \<^verbatim>\<open>>10\<close> and price \<^verbatim>\<open>1'234.50\<close> followed by a space and the Cyrillic letter er (given
  by its UTF-8 bytes), the stock batch with stock \<open>100\<close> and the price batch with price
  \<^verbatim>\<open>1234\<close>. The run of \<^verbatim>\<open>main\<close> submits the stock batch and no price batch at all:
  \<^verbatim>\<open>create_stocks\<close> has emptied the list that \<^verbatim>\<open>create_prices\<close> is then given. On a list
  that still holds \<^verbatim>\<open>X\<close>, \<^verbatim>\<open>create_prices\<close> returns the expected price.
\<close>

theorem main_end_to_end_price_batch_missing:
  "main \<lparr>get_offer_ids = Inr [''X''],
         download_stock = Inr [[key_code \<mapsto> VStr ''X'', key_count \<mapsto> VStr ''>10'',
            key_price \<mapsto> VStr (''1'' @ [CHR 0x27] @ ''234.50 '' @ [CHR 0xD1, CHR 0x80])]],
         update_stocks = (\<lambda>k. None), update_price = (\<lambda>k. None)\<rparr>
     = [Update_stocks [\<lparr>offer_id = ''X'', stock = 100\<rparr>]]
   \<and> create_prices [[key_code \<mapsto> VStr ''X'', key_count \<mapsto> VStr ''>10'',
            key_price \<mapsto> VStr (''1'' @ [CHR 0x27] @ ''234.50 '' @ [CHR 0xD1, CHR 0x80])]] [''X'']
     = Inr [\<lparr>offer_id = ''X'', auto_action_enabled = ''UNKNOWN'', currency_code = ''RUB'',
             old_price = ''0'', price = ''1234''\<rparr>]"
proof -
  define ws :: "watch list" where
    "ws = [[key_code \<mapsto> VStr ''X'', key_count \<mapsto> VStr ''>10'',
            key_price \<mapsto> VStr (''1'' @ [CHR 0x27] @ ''234.50 '' @ [CHR 0xD1, CHR 0x80])]]"
  have s: "create_stocks ws [''X''] = (Inr [\<lparr>offer_id = ''X'', stock = 100\<rparr>], [])"
    unfolding ws_def
    by (simp add: create_stocks_def stock_of_def get_def key_code_def key_count_def
        key_price_def remove_def)
  have p: "create_prices ws [] = Inr []"
    unfolding ws_def by (simp add: create_prices_def)
  have d1: "divide [\<lparr>offer_id = ''X'', stock = 100\<rparr>] 100 = Inr [[\<lparr>offer_id = ''X'', stock = 100\<rparr>]]"
    by (simp add: divide_def range_step.simps slice_def)
  have d2: "divide ([] :: price_update list) 900 = Inr []" by (simp add: divide_Nil)
  have m: "main \<lparr>get_offer_ids = Inr [''X''], download_stock = Inr ws,
         update_stocks = (\<lambda>k. None), update_price = (\<lambda>k. None)\<rparr>
     = [Update_stocks [\<lparr>offer_id = ''X'', stock = 100\<rparr>]]"
    by (simp add: main_def main_try_def s p d1 d2)
  have f: "create_prices ws [''X'']
     = Inr [\<lparr>offer_id = ''X'', auto_action_enabled = ''UNKNOWN'', currency_code = ''RUB'',
             old_price = ''0'', price = ''1234''\<rparr>]"
    unfolding ws_def
    by (simp add: create_prices_def price_conversion_def re_sub_non_digits_def is_digit_def
        get_def key_code_def key_count_def key_price_def)
  show ?thesis using m f unfolding ws_def by simp
qed

section \<open>Calling the reconciliation twice\<close>

text \<open>
  Claim C4 says that a second call of \<^verbatim>\<open>create_stocks\<close> with the same rows and the same
  list object returns what the first call returned. With one row of code \<^verbatim>\<open>A\<close> and
  quantity \<^verbatim>\<open>5\<close> and the list holding \<^verbatim>\<open>A\<close>, the first call returns the update for
  \<^verbatim>\<open>A\<close> and leaves the list empty, and the second call returns no update.
\<close>

theorem create_stocks_second_call_counterexample:
  "fst (call_create_stocks [[key_code \<mapsto> VStr ''A'', key_count \<mapsto> VStr ''5'']] 0
          (\<lambda>a. [''A'']))
     = Inr [\<lparr>offer_id = ''A'', stock = 5\<rparr>]
   \<and> fst (call_create_stocks [[key_code \<mapsto> VStr ''A'', key_count \<mapsto> VStr ''5'']] 0
          (snd (call_create_stocks [[key_code \<mapsto> VStr ''A'', key_count \<mapsto> VStr ''5'']] 0
                  (\<lambda>a. [''A'']))))
     = Inr []
   \<and> fst (call_create_stocks [[key_code \<mapsto> VStr ''A'', key_count \<mapsto> VStr ''5'']] 0
          (snd (call_create_stocks [[key_code \<mapsto> VStr ''A'', key_count \<mapsto> VStr ''5'']] 0
                  (\<lambda>a. [''A'']))))
     \<noteq> fst (call_create_stocks [[key_code \<mapsto> VStr ''A'', key_count \<mapsto> VStr ''5'']] 0
          (\<lambda>a. [''A'']))"
  by (simp add: call_create_stocks_def create_stocks_def stock_of_def int_eval strip_def
      is_space_def is_digit_def digit_val_def get_def key_code_def key_count_def remove_def)

lemma create_stocks_residual:
  assumes "distinct ids" and "create_stocks ws ids = (Inr out, ids')"
  shows "create_stocks ws ids' = (Inr (map zero_stock ids'), ids')
       \<and> (map zero_stock ids' = out \<longleftrightarrow> ids' = ids)"
proof -
  obtain m where m: "create_stocks_loop ws [] ids = (Inr m, ids')" "out = m @ map zero_stock ids'"
    using create_stocks_Inr [OF assms(2)] by blast
  have none: "\<forall>w \<in> set ws. code_of w \<notin> set ids'"
    using loop_none_left [OF m(1) assms(1)] .
  have l: "create_stocks_loop ws [] ids' = (Inr [], ids')"
    using none by (rule stocks_loop_no_match)
  have a: "create_stocks ws ids' = (Inr (map zero_stock ids'), ids')"
    using l by (simp add: create_stocks_def zero_stock_def)
  obtain m' where m': "m = [] @ m'" "mset (map offer_id m') + mset ids' = mset ids"
      "m' = [] \<longrightarrow> ids' = ids"
    using loop_mset [OF m(1)] by blast
  have "m = [] \<longleftrightarrow> ids' = ids"
  proof
    assume "m = []" then show "ids' = ids" using m' by simp
  next
    assume "ids' = ids"
    then have "size (mset (map offer_id m')) = 0" using m'(2)
      by (metis add_cancel_right_left size_union add.commute size_eq_0_iff_empty add_cancel_left_left)
    then show "m = []" using m'(1) by simp
  qed
  moreover have "map zero_stock ids' = out \<longleftrightarrow> m = []" using m(2) by auto
  ultimately show ?thesis using a by simp
qed

text \<open>
  Claim C4, amended. A second call of \<^verbatim>\<open>create_stocks\<close> returns what the first returned
  when it is given another list object with the contents the first list had before the
  first call. \<^verbatim>\<open>create_prices\<close> leaves every list as it was, so a second call with the
  same list object returns what the first returned. A second call of \<^verbatim>\<open>create_stocks\<close>
  with the same, duplicate-free list object, after a first call that returned, finds the
  ids that no row carries: it returns a zero stock for each of them and leaves the list
  unchanged, and this equals the first output exactly when the first call removed no id.
\<close>

theorem reconciliation_second_call:
  "(a \<noteq> b \<and> h b = h a \<longrightarrow>
      fst (call_create_stocks ws b (snd (call_create_stocks ws a h)))
        = fst (call_create_stocks ws a h))
   \<and> snd (call_create_prices ws a h) = h
   \<and> fst (call_create_prices ws a (snd (call_create_prices ws a h)))
        = fst (call_create_prices ws a h)
   \<and> (distinct (h a) \<and> call_create_stocks ws a h = (Inr out, h') \<longrightarrow>
        call_create_stocks ws a h' = (Inr (map zero_stock (h' a)), h')
        \<and> (map zero_stock (h' a) = out \<longleftrightarrow> h' a = h a))"
proof -
  have p: "a \<noteq> b \<and> h b = h a \<longrightarrow>
      fst (call_create_stocks ws b (snd (call_create_stocks ws a h)))
        = fst (call_create_stocks ws a h)"
    by (simp add: call_create_stocks_def split: prod.splits)
  have q: "snd (call_create_prices ws a h) = h" by (simp add: call_create_prices_def)
  have r: "fst (call_create_prices ws a (snd (call_create_prices ws a h)))
        = fst (call_create_prices ws a h)"
    by (simp add: call_create_prices_def)
  have s: "distinct (h a) \<and> call_create_stocks ws a h = (Inr out, h') \<longrightarrow>
        call_create_stocks ws a h' = (Inr (map zero_stock (h' a)), h')
        \<and> (map zero_stock (h' a) = out \<longleftrightarrow> h' a = h a)"
  proof (intro impI, elim conjE)
    assume d: "distinct (h a)" and c: "call_create_stocks ws a h = (Inr out, h')"
    obtain ids' where i: "create_stocks ws (h a) = (Inr out, ids')" "h' = h(a := ids')"
      using c by (auto simp: call_create_stocks_def split: prod.splits)
    have e: "h' a = ids'" using i(2) by simp
    have u: "h'(a := ids') = h'" using i(2) by simp
    have t: "create_stocks ws ids' = (Inr (map zero_stock ids'), ids')"
        "map zero_stock ids' = out \<longleftrightarrow> ids' = h a"
      using create_stocks_residual [OF d i(1)] by blast+
    show "call_create_stocks ws a h' = (Inr (map zero_stock (h' a)), h')
        \<and> (map zero_stock (h' a) = out \<longleftrightarrow> h' a = h a)"
      using t e u by (simp add: call_create_stocks_def)
  qed
  show ?thesis using p q r s by blast
qed


theorem reconciliation_second_call_witness:
  "(0::nat) \<noteq> 1
   \<and> fst (call_create_stocks [[key_code \<mapsto> VStr ''A'', key_count \<mapsto> VStr ''5'']] 1
        (snd (call_create_stocks [[key_code \<mapsto> VStr ''A'', key_count \<mapsto> VStr ''5'']] 0
               (\<lambda>a. [''A'', ''B'']))))
      = Inr [\<lparr>offer_id = ''A'', stock = 5\<rparr>, \<lparr>offer_id = ''B'', stock = 0\<rparr>]
   \<and> distinct [''A'', ''B'']
   \<and> call_create_stocks [[key_code \<mapsto> VStr ''A'', key_count \<mapsto> VStr ''5'']] 0
        (\<lambda>a. [''A'', ''B''])
      = (Inr [\<lparr>offer_id = ''A'', stock = 5\<rparr>, \<lparr>offer_id = ''B'', stock = 0\<rparr>],
         (\<lambda>a. [''A'', ''B''])(0 := [''B'']))
   \<and> call_create_stocks [[key_code \<mapsto> VStr ''A'', key_count \<mapsto> VStr ''5'']] 0
        ((\<lambda>a. [''A'', ''B''])(0 := [''B'']))
      = (Inr [\<lparr>offer_id = ''B'', stock = 0\<rparr>], (\<lambda>a. [''A'', ''B''])(0 := [''B'']))"
proof -
  define ws :: "watch list" where
    "ws = [[key_code \<mapsto> VStr ''A'', key_count \<mapsto> VStr ''5'']]"
  define h :: heap where "h = (\<lambda>a. [''A'', ''B''])"
  have c: "call_create_stocks ws 0 h
      = (Inr [\<lparr>offer_id = ''A'', stock = 5\<rparr>, \<lparr>offer_id = ''B'', stock = 0\<rparr>], h(0 := [''B'']))"
    unfolding ws_def h_def
    by (simp add: call_create_stocks_def create_stocks_def stock_of_def int_eval strip_def
      is_space_def is_digit_def digit_val_def get_def key_code_def key_count_def remove_def)
  have n: "(0::nat) \<noteq> 1 \<and> h 1 = h 0" by (simp add: h_def)
  have d: "distinct (h 0)" by (simp add: h_def)
  note t = reconciliation_second_call [of 0 1 h ws
      "[\<lparr>offer_id = ''A'', stock = 5\<rparr>, \<lparr>offer_id = ''B'', stock = 0\<rparr>]" "h(0 := [''B''])"]
  have w1: "fst (call_create_stocks ws 1 (snd (call_create_stocks ws 0 h)))
        = fst (call_create_stocks ws 0 h)"
    using t n by blast
  have w2: "call_create_stocks ws 0 (h(0 := [''B'']))
      = (Inr (map zero_stock ((h(0 := [''B''])) 0)), h(0 := [''B'']))"
    using t d c by blast
  show ?thesis using w1 w2 c d unfolding ws_def h_def by (simp add: zero_stock_def)
qed

section \<open>Properties of \<^verbatim>\<open>create_prices\<close>\<close>

lemma prices_loop_shape:
  "create_prices_loop ws acc ids = Inr out \<Longrightarrow>
   \<exists>m. out = acc @ m
     \<and> map offer_id m = filter (\<lambda>c. c \<in> set ids) (map code_of ws)
     \<and> (\<forall>u \<in> set m. auto_action_enabled u = ''UNKNOWN'' \<and> currency_code u = ''RUB''
            \<and> old_price u = ''0''
            \<and> (\<exists>w \<in> set ws. code_of w = offer_id u
                  \<and> price_conversion (get w key_price) = Inr (price u)))"
proof (induction ws arbitrary: acc)
  case Nil
  then show ?case by simp
next
  case (Cons w rest)
  show ?case
  proof (cases "code_of w \<in> set ids")
    case True
    then obtain p where p: "price_conversion (get w key_price) = Inr p"
      using Cons.prems by (cases "price_conversion (get w key_price)") (auto simp: code_of_def)
    define u where "u = \<lparr>offer_id = code_of w, auto_action_enabled = ''UNKNOWN'',
        currency_code = ''RUB'', old_price = ''0'', price = p\<rparr>"
    have "create_prices_loop rest (acc @ [u]) ids = Inr out"
      using Cons.prems True p by (simp add: code_of_def u_def)
    then obtain m where m: "out = (acc @ [u]) @ m"
        "map offer_id m = filter (\<lambda>c. c \<in> set ids) (map code_of rest)"
        "\<forall>v \<in> set m. auto_action_enabled v = ''UNKNOWN'' \<and> currency_code v = ''RUB''
            \<and> old_price v = ''0''
            \<and> (\<exists>w' \<in> set rest. code_of w' = offer_id v
                  \<and> price_conversion (get w' key_price) = Inr (price v))"
      using Cons.IH by blast
    have a: "out = acc @ (u # m)" using m(1) by simp
    have b: "map offer_id (u # m) = filter (\<lambda>c. c \<in> set ids) (map code_of (w # rest))"
      using m(2) True by (simp add: u_def)
    have c: "\<forall>v \<in> set (u # m). auto_action_enabled v = ''UNKNOWN'' \<and> currency_code v = ''RUB''
            \<and> old_price v = ''0''
            \<and> (\<exists>w' \<in> set (w # rest). code_of w' = offer_id v
                  \<and> price_conversion (get w' key_price) = Inr (price v))"
      using m(3) p by (simp add: u_def)
    show ?thesis using a b c by blast
  next
    case False
    then have "create_prices_loop rest acc ids = Inr out"
      using Cons.prems by (simp add: code_of_def)
    from Cons.IH [OF this] show ?thesis using False by auto
  qed
qed

lemma prices_loop_rows:
  "create_prices_loop ws acc ids = Inr out \<Longrightarrow>
   \<exists>m. out = acc @ m
     \<and> list_all2
          (\<lambda>u w. offer_id u = code_of w \<and> auto_action_enabled u = ''UNKNOWN''
             \<and> currency_code u = ''RUB'' \<and> old_price u = ''0''
             \<and> price_conversion (get w key_price) = Inr (price u))
          m (filter (\<lambda>w. code_of w \<in> set ids) ws)"
proof (induction ws arbitrary: acc)
  case Nil
  then show ?case by simp
next
  case (Cons w rest)
  show ?case
  proof (cases "code_of w \<in> set ids")
    case True
    then obtain p where p: "price_conversion (get w key_price) = Inr p"
      using Cons.prems by (cases "price_conversion (get w key_price)") (auto simp: code_of_def)
    define u where "u = \<lparr>offer_id = code_of w, auto_action_enabled = ''UNKNOWN'',
        currency_code = ''RUB'', old_price = ''0'', price = p\<rparr>"
    have "create_prices_loop rest (acc @ [u]) ids = Inr out"
      using Cons.prems True p by (simp add: code_of_def u_def)
    then obtain m where m: "out = (acc @ [u]) @ m"
        "list_all2
          (\<lambda>u w. offer_id u = code_of w \<and> auto_action_enabled u = ''UNKNOWN''
             \<and> currency_code u = ''RUB'' \<and> old_price u = ''0''
             \<and> price_conversion (get w key_price) = Inr (price u))
          m (filter (\<lambda>w. code_of w \<in> set ids) rest)"
      using Cons.IH by blast
    have a: "out = acc @ (u # m)" using m(1) by simp
    have b: "list_all2
          (\<lambda>u w. offer_id u = code_of w \<and> auto_action_enabled u = ''UNKNOWN''
             \<and> currency_code u = ''RUB'' \<and> old_price u = ''0''
             \<and> price_conversion (get w key_price) = Inr (price u))
          (u # m) (filter (\<lambda>w. code_of w \<in> set ids) (w # rest))"
      using m(2) True p by (simp add: u_def)
    show ?thesis using a b by blast
  next
    case False
    then have "create_prices_loop rest acc ids = Inr out"
      using Cons.prems by (simp add: code_of_def)
    from Cons.IH [OF this] show ?thesis using False by auto
  qed
qed

lemma price_update_pinned:
  assumes "list_all2
        (\<lambda>u w. offer_id u = code_of w \<and> auto_action_enabled u = ''UNKNOWN''
           \<and> currency_code u = ''RUB'' \<and> old_price u = ''0''
           \<and> price_conversion (get w key_price) = Inr (price u)) out rows"
    and "list_all2
        (\<lambda>u w. offer_id u = code_of w \<and> auto_action_enabled u = ''UNKNOWN''
           \<and> currency_code u = ''RUB'' \<and> old_price u = ''0''
           \<and> price_conversion (get w key_price) = Inr (price u)) out' rows"
  shows "out = (out' :: price_update list)"
  using assms
proof (induction out rows arbitrary: out' rule: list_all2_induct)
  case Nil
  then show ?case by simp
next
  case (Cons u us w ws)
  then obtain u' us' where o: "out' = u' # us'" by (cases out') auto
  have "u = u'" using Cons.hyps(1) Cons.prems o by (cases u, cases u') simp
  then show ?case using Cons o by simp
qed

text \<open>
  Claim C2 says that \<^verbatim>\<open>create_prices\<close> returns exactly one update per offer id that is
  both in the catalog and among the supplier rows, for every sequence of rows. Two rows
  with the code \<^verbatim>\<open>A\<close> give two updates for \<^verbatim>\<open>A\<close>: \<^verbatim>\<open>create_prices\<close> removes nothing from
  the list, so a later row with the same code matches again.
\<close>

theorem create_prices_duplicate_rows_counterexample:
  "create_prices
     [[key_code \<mapsto> VStr ''A'', key_price \<mapsto> VStr ''100.00''],
      [key_code \<mapsto> VStr ''A'', key_price \<mapsto> VStr ''200.00'']] [''A'', ''B'']
   = Inr [\<lparr>offer_id = ''A'', auto_action_enabled = ''UNKNOWN'', currency_code = ''RUB'',
           old_price = ''0'', price = ''100''\<rparr>,
          \<lparr>offer_id = ''A'', auto_action_enabled = ''UNKNOWN'', currency_code = ''RUB'',
           old_price = ''0'', price = ''200''\<rparr>]"
  by (simp add: create_prices_def price_conversion_def re_sub_non_digits_def is_digit_def
      get_def key_code_def key_price_def)

text \<open>
  Claim C2, amended. Whenever \<^verbatim>\<open>create_prices\<close> returns, it has one update per supplier
  row whose code is in the catalog, in the order of the rows: the \<open>k\<close>-th update has the
  code of the \<open>k\<close>-th such row as its offer id, \<^verbatim>\<open>auto_action_enabled\<close> \<^verbatim>\<open>UNKNOWN\<close>,
  \<^verbatim>\<open>currency_code\<close> \<^verbatim>\<open>RUB\<close>, \<^verbatim>\<open>old_price\<close> \<^verbatim>\<open>0\<close> and the converted price of that row, and no
  other list of updates stands in this relation to the rows. So a row whose code is in no
  catalog id adds nothing, a catalog id that no row carries gets no update, and there is
  exactly one update per offer id when the codes of the rows are distinct. For the catalog
  \<^verbatim>\<open>A\<close>, \<^verbatim>\<open>B\<close> and the one row with code \<^verbatim>\<open>A\<close> and price \<^verbatim>\<open>100.00\<close> the result is the one
  update for \<^verbatim>\<open>A\<close> with price \<^verbatim>\<open>100\<close>.
\<close>

theorem create_prices_one_update_per_matching_row:
  "(create_prices ws ids = Inr out \<longrightarrow>
      list_all2
        (\<lambda>u w. offer_id u = code_of w \<and> auto_action_enabled u = ''UNKNOWN''
           \<and> currency_code u = ''RUB'' \<and> old_price u = ''0''
           \<and> price_conversion (get w key_price) = Inr (price u))
        out (filter (\<lambda>w. code_of w \<in> set ids) ws)
      \<and> map offer_id out = filter (\<lambda>c. c \<in> set ids) (map code_of ws)
      \<and> set (map offer_id out) = set ids \<inter> code_of ` set ws
      \<and> (distinct (map code_of ws) \<longrightarrow> distinct (map offer_id out))
      \<and> (\<forall>u \<in> set out. auto_action_enabled u = ''UNKNOWN'' \<and> currency_code u = ''RUB''
            \<and> old_price u = ''0''
            \<and> (\<exists>w \<in> set ws. code_of w = offer_id u
                  \<and> price_conversion (get w key_price) = Inr (price u)))
      \<and> (\<forall>out'. list_all2
        (\<lambda>u w. offer_id u = code_of w \<and> auto_action_enabled u = ''UNKNOWN''
           \<and> currency_code u = ''RUB'' \<and> old_price u = ''0''
           \<and> price_conversion (get w key_price) = Inr (price u))
        out' (filter (\<lambda>w. code_of w \<in> set ids) ws) \<longrightarrow> out' = out))
   \<and> create_prices [[key_code \<mapsto> VStr ''A'', key_price \<mapsto> VStr ''100.00'']] [''A'', ''B'']
       = Inr [\<lparr>offer_id = ''A'', auto_action_enabled = ''UNKNOWN'', currency_code = ''RUB'',
               old_price = ''0'', price = ''100''\<rparr>]"
proof -
  have ex: "create_prices [[key_code \<mapsto> VStr ''A'', key_price \<mapsto> VStr ''100.00'']] [''A'', ''B'']
       = Inr [\<lparr>offer_id = ''A'', auto_action_enabled = ''UNKNOWN'', currency_code = ''RUB'',
               old_price = ''0'', price = ''100''\<rparr>]"
    by (simp add: create_prices_def price_conversion_def re_sub_non_digits_def is_digit_def
      get_def key_code_def key_price_def)
  have g: "list_all2
        (\<lambda>u w. offer_id u = code_of w \<and> auto_action_enabled u = ''UNKNOWN''
           \<and> currency_code u = ''RUB'' \<and> old_price u = ''0''
           \<and> price_conversion (get w key_price) = Inr (price u))
        out (filter (\<lambda>w. code_of w \<in> set ids) ws)
      \<and> map offer_id out = filter (\<lambda>c. c \<in> set ids) (map code_of ws)
      \<and> set (map offer_id out) = set ids \<inter> code_of ` set ws
      \<and> (distinct (map code_of ws) \<longrightarrow> distinct (map offer_id out))
      \<and> (\<forall>u \<in> set out. auto_action_enabled u = ''UNKNOWN'' \<and> currency_code u = ''RUB''
            \<and> old_price u = ''0''
            \<and> (\<exists>w \<in> set ws. code_of w = offer_id u
                  \<and> price_conversion (get w key_price) = Inr (price u)))
      \<and> (\<forall>out'. list_all2
        (\<lambda>u w. offer_id u = code_of w \<and> auto_action_enabled u = ''UNKNOWN''
           \<and> currency_code u = ''RUB'' \<and> old_price u = ''0''
           \<and> price_conversion (get w key_price) = Inr (price u))
        out' (filter (\<lambda>w. code_of w \<in> set ids) ws) \<longrightarrow> out' = out)"
    if c: "create_prices ws ids = Inr out"
  proof -
    obtain m where m: "out = [] @ m"
        "map offer_id m = filter (\<lambda>c. c \<in> set ids) (map code_of ws)"
        "\<forall>u \<in> set m. auto_action_enabled u = ''UNKNOWN'' \<and> currency_code u = ''RUB''
            \<and> old_price u = ''0''
            \<and> (\<exists>w \<in> set ws. code_of w = offer_id u
                  \<and> price_conversion (get w key_price) = Inr (price u))"
      using prices_loop_shape [of ws "[]" ids out] c unfolding create_prices_def by blast
    obtain m' where m': "out = [] @ m'"
        "list_all2
          (\<lambda>u w. offer_id u = code_of w \<and> auto_action_enabled u = ''UNKNOWN''
             \<and> currency_code u = ''RUB'' \<and> old_price u = ''0''
             \<and> price_conversion (get w key_price) = Inr (price u))
          m' (filter (\<lambda>w. code_of w \<in> set ids) ws)"
      using prices_loop_rows [of ws "[]" ids out] c unfolding create_prices_def by blast
    have o: "out = m" "out = m'" using m(1) m'(1) by simp_all
    have r: "list_all2
        (\<lambda>u w. offer_id u = code_of w \<and> auto_action_enabled u = ''UNKNOWN''
           \<and> currency_code u = ''RUB'' \<and> old_price u = ''0''
           \<and> price_conversion (get w key_price) = Inr (price u))
        out (filter (\<lambda>w. code_of w \<in> set ids) ws)"
      using m'(2) o(2) by simp
    have a: "map offer_id out = filter (\<lambda>c. c \<in> set ids) (map code_of ws)" using o m(2) by simp
    have b: "set (map offer_id out) = set ids \<inter> code_of ` set ws"
      unfolding a by auto
    have d: "distinct (map code_of ws) \<longrightarrow> distinct (map offer_id out)"
      unfolding a by simp
    have u: "\<forall>out'. list_all2
        (\<lambda>u w. offer_id u = code_of w \<and> auto_action_enabled u = ''UNKNOWN''
           \<and> currency_code u = ''RUB'' \<and> old_price u = ''0''
           \<and> price_conversion (get w key_price) = Inr (price u))
        out' (filter (\<lambda>w. code_of w \<in> set ids) ws) \<longrightarrow> out' = out"
      using price_update_pinned [OF _ r] by blast
    have e: "\<forall>u \<in> set out. auto_action_enabled u = ''UNKNOWN'' \<and> currency_code u = ''RUB''
            \<and> old_price u = ''0''
            \<and> (\<exists>w \<in> set ws. code_of w = offer_id u
                  \<and> price_conversion (get w key_price) = Inr (price u))"
      using m(3) o(1) by simp
    show ?thesis using r a b d e u by (intro conjI) assumption+
  qed
  show ?thesis using ex g by blast
qed

theorem create_prices_one_update_per_matching_row_witness:
  "create_prices
     [[key_code \<mapsto> VStr ''A'', key_price \<mapsto> VStr ''100.00''],
      [key_code \<mapsto> VStr ''Z'', key_price \<mapsto> VStr ''7.00''],
      [key_code \<mapsto> VStr ''A'', key_price \<mapsto> VStr ''200.00'']] [''A'', ''B'']
   = Inr [\<lparr>offer_id = ''A'', auto_action_enabled = ''UNKNOWN'', currency_code = ''RUB'',
           old_price = ''0'', price = ''100''\<rparr>,
          \<lparr>offer_id = ''A'', auto_action_enabled = ''UNKNOWN'', currency_code = ''RUB'',
           old_price = ''0'', price = ''200''\<rparr>]
   \<and> map offer_id [\<lparr>offer_id = ''A'', auto_action_enabled = ''UNKNOWN'', currency_code = ''RUB'',
           old_price = ''0'', price = ''100''\<rparr>,
          \<lparr>offer_id = ''A'', auto_action_enabled = ''UNKNOWN'', currency_code = ''RUB'',
           old_price = ''0'', price = ''200''\<rparr>]
      = filter (\<lambda>c. c \<in> set [''A'', ''B''])
          (map code_of [[key_code \<mapsto> VStr ''A'', key_price \<mapsto> VStr ''100.00''],
                        [key_code \<mapsto> VStr ''Z'', key_price \<mapsto> VStr ''7.00''],
                        [key_code \<mapsto> VStr ''A'', key_price \<mapsto> VStr ''200.00'']])
   \<and> list_all2
        (\<lambda>u w. offer_id u = code_of w \<and> auto_action_enabled u = ''UNKNOWN''
           \<and> currency_code u = ''RUB'' \<and> old_price u = ''0''
           \<and> price_conversion (get w key_price) = Inr (price u))
        [\<lparr>offer_id = ''A'', auto_action_enabled = ''UNKNOWN'', currency_code = ''RUB'',
           old_price = ''0'', price = ''100''\<rparr>,
          \<lparr>offer_id = ''A'', auto_action_enabled = ''UNKNOWN'', currency_code = ''RUB'',
           old_price = ''0'', price = ''200''\<rparr>]
        (filter (\<lambda>w. code_of w \<in> set [''A'', ''B''])
           [[key_code \<mapsto> VStr ''A'', key_price \<mapsto> VStr ''100.00''],
            [key_code \<mapsto> VStr ''Z'', key_price \<mapsto> VStr ''7.00''],
            [key_code \<mapsto> VStr ''A'', key_price \<mapsto> VStr ''200.00'']])"
proof -
  have c: "create_prices
     [[key_code \<mapsto> VStr ''A'', key_price \<mapsto> VStr ''100.00''],
      [key_code \<mapsto> VStr ''Z'', key_price \<mapsto> VStr ''7.00''],
      [key_code \<mapsto> VStr ''A'', key_price \<mapsto> VStr ''200.00'']] [''A'', ''B'']
   = Inr [\<lparr>offer_id = ''A'', auto_action_enabled = ''UNKNOWN'', currency_code = ''RUB'',
           old_price = ''0'', price = ''100''\<rparr>,
          \<lparr>offer_id = ''A'', auto_action_enabled = ''UNKNOWN'', currency_code = ''RUB'',
           old_price = ''0'', price = ''200''\<rparr>]"
    by (simp add: create_prices_def price_conversion_def re_sub_non_digits_def is_digit_def
      get_def key_code_def key_price_def)
  show ?thesis
    using create_prices_one_update_per_matching_row [of
       "[[key_code \<mapsto> VStr ''A'', key_price \<mapsto> VStr ''100.00''],
         [key_code \<mapsto> VStr ''Z'', key_price \<mapsto> VStr ''7.00''],
         [key_code \<mapsto> VStr ''A'', key_price \<mapsto> VStr ''200.00'']]" "[''A'', ''B'']"
       "[\<lparr>offer_id = ''A'', auto_action_enabled = ''UNKNOWN'', currency_code = ''RUB'',
           old_price = ''0'', price = ''100''\<rparr>,
          \<lparr>offer_id = ''A'', auto_action_enabled = ''UNKNOWN'', currency_code = ''RUB'',
           old_price = ''0'', price = ''200''\<rparr>]"] c
    by blast
qed

section \<open>Failures in \<^verbatim>\<open>main\<close>\<close>

lemma upload_fail:
  "upload call outcome k bs = (tr, Some e) \<Longrightarrow>
   \<exists>j < length bs. tr = map call (take (Suc j) bs) \<and> outcome (k + j) = Some e
      \<and> (\<forall>i < j. outcome (k + i) = None)"
proof (induction bs arbitrary: k tr)
  case Nil
  then show ?case by simp
next
  case (Cons b bs)
  show ?case
  proof (cases "outcome k")
    case (Some e')
    then have "tr = [call b]" "e' = e" using Cons.prems by auto
    then have "0 < length (b # bs) \<and> tr = map call (take (Suc 0) (b # bs))
        \<and> outcome (k + 0) = Some e \<and> (\<forall>i < (0::nat). outcome (k + i) = None)"
      using Some by simp
    then show ?thesis by blast
  next
    case None
    obtain tr' r' where u: "upload call outcome (Suc k) bs = (tr', r')" by fastforce
    then have t: "tr = call b # tr'" "r' = Some e" using Cons.prems None by auto
    obtain j where j: "j < length bs" "tr' = map call (take (Suc j) bs)"
        "outcome (Suc k + j) = Some e" "\<forall>i < j. outcome (Suc k + i) = None"
      using Cons.IH [of "Suc k" tr'] u t(2) by blast
    have n: "\<forall>i < Suc j. outcome (k + i) = None"
    proof (intro allI impI)
      fix i assume "i < Suc j"
      then show "outcome (k + i) = None"
        using None j(4) by (cases i) auto
    qed
    have "Suc j < length (b # bs) \<and> tr = map call (take (Suc (Suc j)) (b # bs))
        \<and> outcome (k + Suc j) = Some e"
      using j t by simp
    then show ?thesis using n by blast
  qed
qed

lemma upload_ok:
  "upload call outcome k bs = (tr, None) \<Longrightarrow> tr = map call bs"
  using upload_prefix [of call outcome k bs tr None] by auto

text \<open>
  Claim C9 says that a transient network error, a validation failure and an unexpected
  failure each have a diagnostic message of their own. A malformed quantity (a validation
  failure) and an exception of any other class raised by \<^verbatim>\<open>get_offer_ids\<close> (an unexpected
  failure) are caught by the same clause, \<^verbatim>\<open>except Exception\<close>, and printed with the same
  literal \<^verbatim>\<open>ERROR_2\<close>; only the exception's own text before the literal differs.
\<close>

theorem diagnostic_shared_counterexample:
  "spec_category ValueError = ValidationFailure
   \<and> spec_category OtherException = UnexpectedFailure
   \<and> main \<lparr>get_offer_ids = Inr [''A''],
           download_stock = Inr [[key_code \<mapsto> VStr ''A'', key_count \<mapsto> VStr ''abc'']],
           update_stocks = (\<lambda>k. None), update_price = (\<lambda>k. None)\<rparr>
       = [Print (Some ValueError) ''ERROR_2'']
   \<and> main \<lparr>get_offer_ids = Inl OtherException,
           download_stock = Inr [],
           update_stocks = (\<lambda>k. None), update_price = (\<lambda>k. None)\<rparr>
       = [Print (Some OtherException) ''ERROR_2'']
   \<and> diagnostic (handler ValueError) = diagnostic (handler OtherException)"
  by (simp add: spec_category_def main_def main_try_def handler_def create_stocks_def stock_of_def
      int_eval strip_def is_space_def is_digit_def get_def key_code_def key_count_def)

text \<open>
  Claim C9, amended. A failure at any step inside the \<^verbatim>\<open>try\<close> of \<^verbatim>\<open>main\<close> ends the run
  with one printed line and nothing after it: a failure of \<^verbatim>\<open>get_offer_ids\<close>, of
  \<^verbatim>\<open>download_stock\<close> or of \<^verbatim>\<open>create_stocks\<close> (a malformed quantity) is reported before
  anything is submitted; when a call of \<^verbatim>\<open>update_stocks\<close> fails, the batches up to that
  one have been submitted once each, the failing one is not submitted again, no later
  batch is submitted and prices are not reconciled; a failure of \<^verbatim>\<open>create_prices\<close> (a
  malformed price) is reported after the stock batches and no price is submitted; a
  failing call of \<^verbatim>\<open>update_price\<close> likewise ends the run. There are three handlers
  with three different literals: a read timeout prints the timeout message, a connection
  error prints the exception and the connection message, and every other exception, a
  validation failure and an unexpected failure alike, prints the exception and
  \<^verbatim>\<open>ERROR_2\<close>.
\<close>

theorem main_aborts_after_reporting:
  "(get_offer_ids w = Inl e \<longrightarrow> main w = [handler e])
   \<and> (get_offer_ids w = Inr ids \<and> download_stock w = Inl e \<longrightarrow> main w = [handler e])
   \<and> (get_offer_ids w = Inr ids \<and> download_stock w = Inr ws
        \<and> create_stocks ws ids = (Inl e, ids') \<longrightarrow> main w = [handler e])
   \<and> (get_offer_ids w = Inr ids \<and> download_stock w = Inr ws
        \<and> create_stocks ws ids = (Inr stocks, ids') \<and> divide stocks 100 = Inr sb
        \<and> upload Update_stocks (update_stocks w) 0 sb = (tr, Some e) \<longrightarrow>
          main w = tr @ [handler e]
          \<and> (\<exists>j < length sb. tr = map Update_stocks (take (Suc j) sb)
                \<and> update_stocks w j = Some e \<and> (\<forall>i < j. update_stocks w i = None)))
   \<and> (get_offer_ids w = Inr ids \<and> download_stock w = Inr ws
        \<and> create_stocks ws ids = (Inr stocks, ids') \<and> divide stocks 100 = Inr sb
        \<and> upload Update_stocks (update_stocks w) 0 sb = (tr, None)
        \<and> create_prices ws ids' = Inl e \<longrightarrow>
          main w = map Update_stocks sb @ [handler e])
   \<and> (get_offer_ids w = Inr ids \<and> download_stock w = Inr ws
        \<and> create_stocks ws ids = (Inr stocks, ids') \<and> divide stocks 100 = Inr sb
        \<and> upload Update_stocks (update_stocks w) 0 sb = (tr, None)
        \<and> create_prices ws ids' = Inr prices \<and> divide prices 900 = Inr pb
        \<and> upload Update_price (update_price w) 0 pb = (tr', Some e) \<longrightarrow>
          main w = map Update_stocks sb @ tr' @ [handler e]
          \<and> (\<exists>j < length pb. tr' = map Update_price (take (Suc j) pb)
                \<and> update_price w j = Some e \<and> (\<forall>i < j. update_price w i = None)))
   \<and> handler ReadTimeout = Print None timeout_message
   \<and> handler ConnectionError = Print (Some ConnectionError) connection_message
   \<and> (e \<noteq> ReadTimeout \<and> e \<noteq> ConnectionError \<longrightarrow> handler e = Print (Some e) ''ERROR_2'')
   \<and> timeout_message \<noteq> connection_message
   \<and> timeout_message \<noteq> ''ERROR_2''
   \<and> connection_message \<noteq> ''ERROR_2''"
proof -
  have a: "get_offer_ids w = Inl e \<longrightarrow> main w = [handler e]"
    by (simp add: main_def main_try_def)
  have b: "get_offer_ids w = Inr ids \<and> download_stock w = Inl e \<longrightarrow> main w = [handler e]"
    by (simp add: main_def main_try_def)
  have c: "get_offer_ids w = Inr ids \<and> download_stock w = Inr ws
        \<and> create_stocks ws ids = (Inl e, ids') \<longrightarrow> main w = [handler e]"
    by (simp add: main_def main_try_def)
  have d: "get_offer_ids w = Inr ids \<and> download_stock w = Inr ws
        \<and> create_stocks ws ids = (Inr stocks, ids') \<and> divide stocks 100 = Inr sb
        \<and> upload Update_stocks (update_stocks w) 0 sb = (tr, Some e) \<longrightarrow>
          main w = tr @ [handler e]
          \<and> (\<exists>j < length sb. tr = map Update_stocks (take (Suc j) sb)
                \<and> update_stocks w j = Some e \<and> (\<forall>i < j. update_stocks w i = None))"
  proof (intro impI, elim conjE)
    assume h: "get_offer_ids w = Inr ids" "download_stock w = Inr ws"
      "create_stocks ws ids = (Inr stocks, ids')" "divide stocks 100 = Inr sb"
      "upload Update_stocks (update_stocks w) 0 sb = (tr, Some e)"
    have m: "main w = tr @ [handler e]" using h by (simp add: main_def main_try_def)
    have "\<exists>j < length sb. tr = map Update_stocks (take (Suc j) sb)
                \<and> update_stocks w (0 + j) = Some e \<and> (\<forall>i < j. update_stocks w (0 + i) = None)"
      using h(5) by (rule upload_fail)
    then show "main w = tr @ [handler e]
          \<and> (\<exists>j < length sb. tr = map Update_stocks (take (Suc j) sb)
                \<and> update_stocks w j = Some e \<and> (\<forall>i < j. update_stocks w i = None))"
      using m by simp
  qed
  have f: "get_offer_ids w = Inr ids \<and> download_stock w = Inr ws
        \<and> create_stocks ws ids = (Inr stocks, ids') \<and> divide stocks 100 = Inr sb
        \<and> upload Update_stocks (update_stocks w) 0 sb = (tr, None)
        \<and> create_prices ws ids' = Inl e \<longrightarrow>
          main w = map Update_stocks sb @ [handler e]"
  proof (intro impI, elim conjE)
    assume h: "get_offer_ids w = Inr ids" "download_stock w = Inr ws"
      "create_stocks ws ids = (Inr stocks, ids')" "divide stocks 100 = Inr sb"
      "upload Update_stocks (update_stocks w) 0 sb = (tr, None)"
      "create_prices ws ids' = Inl e"
    have t: "tr = map Update_stocks sb" using h(5) by (rule upload_ok)
    show "main w = map Update_stocks sb @ [handler e]"
      using h t by (simp add: main_def main_try_def)
  qed
  have g: "get_offer_ids w = Inr ids \<and> download_stock w = Inr ws
        \<and> create_stocks ws ids = (Inr stocks, ids') \<and> divide stocks 100 = Inr sb
        \<and> upload Update_stocks (update_stocks w) 0 sb = (tr, None)
        \<and> create_prices ws ids' = Inr prices \<and> divide prices 900 = Inr pb
        \<and> upload Update_price (update_price w) 0 pb = (tr', Some e) \<longrightarrow>
          main w = map Update_stocks sb @ tr' @ [handler e]
          \<and> (\<exists>j < length pb. tr' = map Update_price (take (Suc j) pb)
                \<and> update_price w j = Some e \<and> (\<forall>i < j. update_price w i = None))"
  proof (intro impI, elim conjE)
    assume h: "get_offer_ids w = Inr ids" "download_stock w = Inr ws"
      "create_stocks ws ids = (Inr stocks, ids')" "divide stocks 100 = Inr sb"
      "upload Update_stocks (update_stocks w) 0 sb = (tr, None)"
      "create_prices ws ids' = Inr prices" "divide prices 900 = Inr pb"
      "upload Update_price (update_price w) 0 pb = (tr', Some e)"
    have t: "tr = map Update_stocks sb" using h(5) by (rule upload_ok)
    have m: "main w = map Update_stocks sb @ tr' @ [handler e]"
      using h t by (simp add: main_def main_try_def)
    have "\<exists>j < length pb. tr' = map Update_price (take (Suc j) pb)
                \<and> update_price w (0 + j) = Some e \<and> (\<forall>i < j. update_price w (0 + i) = None)"
      using h(8) by (rule upload_fail)
    then show "main w = map Update_stocks sb @ tr' @ [handler e]
          \<and> (\<exists>j < length pb. tr' = map Update_price (take (Suc j) pb)
                \<and> update_price w j = Some e \<and> (\<forall>i < j. update_price w i = None))"
      using m by simp
  qed
  have k: "handler ReadTimeout = Print None timeout_message"
      "handler ConnectionError = Print (Some ConnectionError) connection_message"
      "e \<noteq> ReadTimeout \<and> e \<noteq> ConnectionError \<longrightarrow> handler e = Print (Some e) ''ERROR_2''"
    by (simp_all add: handler_def)
  have l: "timeout_message \<noteq> connection_message" "timeout_message \<noteq> ''ERROR_2''"
      "connection_message \<noteq> ''ERROR_2''"
    by (simp_all add: timeout_message_def connection_message_def)
  show ?thesis using a b c d f g k l by blast
qed

theorem main_aborts_after_reporting_witness:
  "main \<lparr>get_offer_ids = Inl ReadTimeout, download_stock = Inr [],
         update_stocks = (\<lambda>k. None), update_price = (\<lambda>k. None)\<rparr>
     = [Print None timeout_message]
   \<and> main \<lparr>get_offer_ids = Inr [''A''],
           download_stock = Inr [[key_code \<mapsto> VStr ''A'', key_count \<mapsto> VStr ''abc'']],
           update_stocks = (\<lambda>k. None), update_price = (\<lambda>k. None)\<rparr>
     = [Print (Some ValueError) ''ERROR_2'']
   \<and> main \<lparr>get_offer_ids = Inr [''A''],
           download_stock = Inr [[key_code \<mapsto> VStr ''A'', key_count \<mapsto> VStr ''5'']],
           update_stocks = (\<lambda>k. Some ConnectionError), update_price = (\<lambda>k. None)\<rparr>
     = [Update_stocks [\<lparr>offer_id = ''A'', stock = 5\<rparr>],
        Print (Some ConnectionError) connection_message]"
proof -
  define w1 where "w1 = \<lparr>get_offer_ids = Inl ReadTimeout, download_stock = Inr [],
         update_stocks = (\<lambda>k::nat. None :: error option), update_price = (\<lambda>k::nat. None :: error option)\<rparr>"
  define ws2 :: "watch list" where
    "ws2 = [[key_code \<mapsto> VStr ''A'', key_count \<mapsto> VStr ''abc'']]"
  define w2 where "w2 = \<lparr>get_offer_ids = Inr [''A''], download_stock = Inr ws2,
         update_stocks = (\<lambda>k::nat. None :: error option), update_price = (\<lambda>k::nat. None :: error option)\<rparr>"
  define ws3 :: "watch list" where
    "ws3 = [[key_code \<mapsto> VStr ''A'', key_count \<mapsto> VStr ''5'']]"
  define w3 where "w3 = \<lparr>get_offer_ids = Inr [''A''], download_stock = Inr ws3,
         update_stocks = (\<lambda>k::nat. Some ConnectionError), update_price = (\<lambda>k::nat. None :: error option)\<rparr>"
  have g1: "get_offer_ids w1 = Inl ReadTimeout" by (simp add: w1_def)
  have r1: "main w1 = [handler ReadTimeout]"
    using main_aborts_after_reporting [of w1 ReadTimeout] g1 by blast
  have c2: "get_offer_ids w2 = Inr [''A''] \<and> download_stock w2 = Inr ws2
        \<and> create_stocks ws2 [''A''] = (Inl ValueError, [''A''])"
    unfolding w2_def ws2_def
    by (simp add: create_stocks_def stock_of_def int_eval strip_def is_space_def
        is_digit_def get_def key_code_def key_count_def)
  have r2: "main w2 = [handler ValueError]"
    using main_aborts_after_reporting [of w2 ValueError "[''A'']" ws2 "[''A'']"] c2 by blast
  have c3: "get_offer_ids w3 = Inr [''A''] \<and> download_stock w3 = Inr ws3
        \<and> create_stocks ws3 [''A''] = (Inr [\<lparr>offer_id = ''A'', stock = 5\<rparr>], [])
        \<and> divide [\<lparr>offer_id = ''A'', stock = 5\<rparr>] 100 = Inr [[\<lparr>offer_id = ''A'', stock = 5\<rparr>]]
        \<and> upload Update_stocks (update_stocks w3) 0 [[\<lparr>offer_id = ''A'', stock = 5\<rparr>]]
            = ([Update_stocks [\<lparr>offer_id = ''A'', stock = 5\<rparr>]], Some ConnectionError)"
    unfolding w3_def ws3_def
    by (simp add: create_stocks_def stock_of_def int_eval strip_def is_space_def
        is_digit_def digit_val_def get_def key_code_def key_count_def remove_def
        divide_def range_step.simps slice_def)
  have r3: "main w3 = [Update_stocks [\<lparr>offer_id = ''A'', stock = 5\<rparr>]] @ [handler ConnectionError]"
    using main_aborts_after_reporting [of w3 ConnectionError "[''A'']" ws3 "[]"
        "[\<lparr>offer_id = ''A'', stock = 5\<rparr>]" "[[\<lparr>offer_id = ''A'', stock = 5\<rparr>]]"
        "[Update_stocks [\<lparr>offer_id = ''A'', stock = 5\<rparr>]]"] c3
    by blast
  show ?thesis
    using r1 r2 r3 unfolding w1_def w2_def w3_def ws2_def ws3_def
    by (simp add: handler_def)
qed

end
